theory Spec2Isabelle
  imports Complex_Main "HOL-Library.Sublist" "HOL-Library.Log_Nat"
begin

section \<open>Python values\<close>

subsection \<open>Strings\<close>

text \<open>
  A Python \<^verbatim>\<open>str\<close> is a sequence of Unicode code points. The fields of a vCard, of
  which \<^verbatim>\<open>_escape_vcard\<close> inspects five ASCII characters, are HOL strings. The payload,
  whose white space and letters \<^verbatim>\<open>create_qr_with_logo\<close> inspects, is a list of code
  points (natural numbers); \<open>cps\<close> gives the code points of an ASCII literal.
\<close>

abbreviation BS :: char where "BS \<equiv> CHR 0x5C"
abbreviation CR :: char where "CR \<equiv> CHR 0x0D"
abbreviation LF :: char where "LF \<equiv> CHR 0x0A"

text \<open>
  \<^verbatim>\<open>s.replace(old, new)\<close>: every non-overlapping occurrence of \<open>old\<close>, scanning from
  the left. For an empty \<open>old\<close> Python inserts \<open>new\<close> before every character and at the end.
\<close>

function str_replace :: "string \<Rightarrow> string \<Rightarrow> string \<Rightarrow> string" where
  "str_replace old new s =
     (if old = [] then concat (map (\<lambda>c. new @ [c]) s) @ new
      else if s = [] then []
      else if take (length old) s = old
        then new @ str_replace old new (drop (length old) s)
      else hd s # str_replace old new (tl s))"
  by pat_completeness auto
termination
  by (relation "measure (\<lambda>(old, new, s). length s)") auto

declare str_replace.simps [simp del]

definition cps :: "string \<Rightarrow> nat list" where
  "cps s = map of_char s"

text \<open>
  \<^verbatim>\<open>str.strip()\<close> removes the leading and the trailing white space. The white space
  of Python is that of Unicode: the ASCII controls 9 to 13 and 28 to 31, the space,
  U+0085, U+00A0, U+1680, U+2000 to U+200A, U+2028, U+2029, U+202F, U+205F and U+3000.
\<close>

definition is_space :: "nat \<Rightarrow> bool" where
  "is_space c =
     ((9 \<le> c \<and> c \<le> 13) \<or> (28 \<le> c \<and> c \<le> 32) \<or> c = 0x85 \<or> c = 0xA0 \<or> c = 0x1680 \<or>
      (0x2000 \<le> c \<and> c \<le> 0x200A) \<or> c = 0x2028 \<or> c = 0x2029 \<or> c = 0x202F \<or>
      c = 0x205F \<or> c = 0x3000)"

definition py_strip :: "nat list \<Rightarrow> nat list" where
  "py_strip s = rev (dropWhile is_space (rev (dropWhile is_space s)))"

text \<open>
  \<^verbatim>\<open>str.upper()\<close> replaces every character by its upper-case form, of one to three
  characters. Of the ASCII characters only the letters a to z change. The upper-case
  forms of the other characters are Unicode's table, the parameter \<open>uni\<close>; some of
  them are ASCII letters (the dotless i becomes I).
\<close>

definition upper_cp :: "(nat \<Rightarrow> nat list) \<Rightarrow> nat \<Rightarrow> nat list" where
  "upper_cp uni c =
     (if c < 128 then [if 97 \<le> c \<and> c \<le> 122 then c - 32 else c] else uni c)"

definition py_upper :: "(nat \<Rightarrow> nat list) \<Rightarrow> nat list \<Rightarrow> nat list" where
  "py_upper uni s = concat (map (upper_cp uni) s)"

definition startswith :: "'a list \<Rightarrow> 'a list \<Rightarrow> bool" where
  "startswith s p = (take (length p) s = p)"

subsection \<open>Exceptions\<close>

datatype error = ValueError | ZeroDivisionError | OverflowError | AttributeError

definition bind_err :: "error + 'a \<Rightarrow> ('a \<Rightarrow> error + 'b) \<Rightarrow> error + 'b" where
  "bind_err m f = (case m of Inl e \<Rightarrow> Inl e | Inr v \<Rightarrow> f v)"

subsection \<open>Floats\<close>

text \<open>
  A Python \<^verbatim>\<open>float\<close> is an IEEE 754 binary64 value: a finite value (kept as the exact
  rational it denotes), an infinity, or a NaN. The sign of zero is dropped: the program
  never observes it.
\<close>

datatype pyfloat = Fin rat | PInf | NInf | NaN

text \<open>Rounding a rational to the nearest integer, ties to the even one.\<close>

definition rhe :: "rat \<Rightarrow> int" where
  "rhe x = (let f = \<lfloor>x\<rfloor>; d = x - of_int f
            in if d < 1 / 2 then f else if 1 / 2 < d then f + 1
               else if even f then f else f + 1)"

text \<open>The binary exponent of a non-zero rational: \<open>2 powi ilog2 x \<le> \<bar>x\<bar> < 2 powi (ilog2 x + 1)\<close>.\<close>

definition ilog2 :: "rat \<Rightarrow> int" where
  "ilog2 x = (let a = \<bar>x\<bar> in
               if 1 \<le> a then bitlen \<lfloor>a\<rfloor> - 1 else - bitlen (\<lceil>1 / a\<rceil> - 1))"

text \<open>
  \<open>fl x\<close> is the binary64 value nearest to \<open>x\<close> (round to nearest, ties to even): 53
  significant bits, spacing \<open>2 powi (- 1074)\<close> in the subnormal range, an infinity once
  the rounded magnitude reaches \<open>2 ^ 1024\<close>. A float literal of the source and the
  result of every float operation go through it.
\<close>

definition fl :: "rat \<Rightarrow> pyfloat" where
  "fl x = (if x = 0 then Fin 0
           else let q = 2 powi (max (ilog2 x - 52) (- 1074));
                    r = of_int (rhe (x / q)) * q
                in if 2 ^ 1024 \<le> \<bar>r\<bar> then (if 0 < x then PInf else NInf) else Fin r)"

text \<open>Comparisons: every comparison with a NaN is false.\<close>

fun f_lt :: "pyfloat \<Rightarrow> pyfloat \<Rightarrow> bool" where
  "f_lt (Fin x) (Fin y) = (x < y)"
| "f_lt (Fin x) PInf = True"
| "f_lt NInf (Fin y) = True"
| "f_lt NInf PInf = True"
| "f_lt _ _ = False"

fun f_le :: "pyfloat \<Rightarrow> pyfloat \<Rightarrow> bool" where
  "f_le (Fin x) (Fin y) = (x \<le> y)"
| "f_le (Fin x) PInf = True"
| "f_le NInf (Fin y) = True"
| "f_le NInf PInf = True"
| "f_le NInf NInf = True"
| "f_le PInf PInf = True"
| "f_le _ _ = False"

definition f_gt :: "pyfloat \<Rightarrow> pyfloat \<Rightarrow> bool" where
  "f_gt a b = f_lt b a"

definition f_ge :: "pyfloat \<Rightarrow> pyfloat \<Rightarrow> bool" where
  "f_ge a b = f_le b a"

text \<open>
  The builtins \<^verbatim>\<open>max(a, b)\<close> and \<^verbatim>\<open>min(a, b)\<close> keep the first argument unless the second
  compares strictly greater (smaller), so a NaN in second place is dropped and a NaN in
  first place is kept.
\<close>

definition py_max :: "pyfloat \<Rightarrow> pyfloat \<Rightarrow> pyfloat" where
  "py_max a b = (if f_gt b a then b else a)"

definition py_min :: "pyfloat \<Rightarrow> pyfloat \<Rightarrow> pyfloat" where
  "py_min a b = (if f_lt b a then b else a)"

text \<open>Float subtraction and multiplication never raise; they overflow to an infinity.\<close>

fun fsub :: "pyfloat \<Rightarrow> pyfloat \<Rightarrow> pyfloat" where
  "fsub (Fin x) (Fin y) = fl (x - y)"
| "fsub NaN _ = NaN"
| "fsub _ NaN = NaN"
| "fsub PInf PInf = NaN"
| "fsub NInf NInf = NaN"
| "fsub PInf _ = PInf"
| "fsub NInf _ = NInf"
| "fsub (Fin x) PInf = NInf"
| "fsub (Fin x) NInf = PInf"

fun fmul :: "pyfloat \<Rightarrow> pyfloat \<Rightarrow> pyfloat" where
  "fmul (Fin x) (Fin y) = fl (x * y)"
| "fmul NaN _ = NaN"
| "fmul _ NaN = NaN"
| "fmul (Fin x) PInf = (if x = 0 then NaN else if 0 < x then PInf else NInf)"
| "fmul (Fin x) NInf = (if x = 0 then NaN else if 0 < x then NInf else PInf)"
| "fmul PInf (Fin y) = (if y = 0 then NaN else if 0 < y then PInf else NInf)"
| "fmul NInf (Fin y) = (if y = 0 then NaN else if 0 < y then NInf else PInf)"
| "fmul PInf PInf = PInf"
| "fmul NInf NInf = PInf"
| "fmul PInf NInf = NInf"
| "fmul NInf PInf = NInf"

text \<open>Float division raises \<^verbatim>\<open>ZeroDivisionError\<close> on a zero divisor.\<close>

fun fdiv :: "pyfloat \<Rightarrow> pyfloat \<Rightarrow> error + pyfloat" where
  "fdiv (Fin x) (Fin y) = (if y = 0 then Inl ZeroDivisionError else Inr (fl (x / y)))"
| "fdiv NaN (Fin y) = (if y = 0 then Inl ZeroDivisionError else Inr NaN)"
| "fdiv PInf (Fin y) = (if y = 0 then Inl ZeroDivisionError else Inr (if 0 < y then PInf else NInf))"
| "fdiv NInf (Fin y) = (if y = 0 then Inl ZeroDivisionError else Inr (if 0 < y then NInf else PInf))"
| "fdiv _ NaN = Inr NaN"
| "fdiv NaN _ = Inr NaN"
| "fdiv (Fin x) _ = Inr (Fin 0)"
| "fdiv _ _ = Inr NaN"

text \<open>
  An \<^verbatim>\<open>int\<close> operand of a float operation is converted first (correctly rounded);
  the conversion raises \<^verbatim>\<open>OverflowError\<close> when the integer is beyond the float range.
\<close>

definition to_float :: "int \<Rightarrow> error + pyfloat" where
  "to_float n = (case fl (of_int n) of Fin r \<Rightarrow> Inr (Fin r) | _ \<Rightarrow> Inl OverflowError)"

text \<open>
  \<^verbatim>\<open>a / b\<close> on two integers: the correctly rounded quotient, \<^verbatim>\<open>ZeroDivisionError\<close> on a
  zero divisor, \<^verbatim>\<open>OverflowError\<close> when the quotient is beyond the float range.
\<close>

definition int_truediv :: "int \<Rightarrow> int \<Rightarrow> error + pyfloat" where
  "int_truediv a b =
     (if b = 0 then Inl ZeroDivisionError
      else case fl (of_int a / of_int b) of Fin r \<Rightarrow> Inr (Fin r) | _ \<Rightarrow> Inl OverflowError)"

text \<open>\<^verbatim>\<open>int(x)\<close> truncates towards zero; it raises on an infinity and on a NaN.\<close>

fun py_int :: "pyfloat \<Rightarrow> error + int" where
  "py_int (Fin x) = Inr (if 0 \<le> x then \<lfloor>x\<rfloor> else \<lceil>x\<rceil>)"
| "py_int NaN = Inl ValueError"
| "py_int _ = Inl OverflowError"

text \<open>\<^verbatim>\<open>round(x)\<close>: the nearest integer, ties to even; it raises on an infinity and on a NaN.\<close>

fun py_round :: "pyfloat \<Rightarrow> error + int" where
  "py_round (Fin x) = Inr (rhe x)"
| "py_round NaN = Inl ValueError"
| "py_round _ = Inl OverflowError"

text \<open>
  \<^verbatim>\<open>round(x, 2)\<close>: CPython prints the exact value of \<open>x\<close> with two decimals, correctly
  rounded (ties to even), and reads the decimal string back as a float. An infinity
  and a NaN round to themselves.
\<close>

fun py_round2 :: "pyfloat \<Rightarrow> pyfloat" where
  "py_round2 (Fin x) = fl (of_int (rhe (100 * x)) / 100)"
| "py_round2 f = f"


section \<open>The program: \<^verbatim>\<open>qr_creator_v01.py\<close>\<close>

subsection \<open>\<^verbatim>\<open>_escape_vcard\<close>\<close>

text \<open>The argument is an \<^verbatim>\<open>Optional[str]\<close>; \<^verbatim>\<open>None\<close> and the empty string both give \<^verbatim>\<open>""\<close>.\<close>

definition escape_vcard :: "string option \<Rightarrow> string" where
  "escape_vcard s =
     (case s of
        None \<Rightarrow> []
      | Some t \<Rightarrow>
          if t = [] then []
          else str_replace '','' [BS, CHR '','']
                 (str_replace '';'' [BS, CHR '';'']
                   (str_replace [LF] [BS, CHR ''n'']
                     (str_replace [CR, LF] [BS, CHR ''n'']
                       (str_replace [BS] [BS, BS] t)))))"

subsection \<open>\<^verbatim>\<open>_normalize_color\<close>\<close>

text \<open>
  A \<^verbatim>\<open>ColorLike\<close> is a string or a tuple of three or four integers. The parser
  \<^verbatim>\<open>ImageColor.getrgb\<close> belongs to the imaging library and is a parameter: it returns a
  tuple of integers or raises. Whatever it raises is caught and raised again as a
  \<^verbatim>\<open>ValueError\<close>; a result longer than three components loses the rest.
\<close>

datatype color_like = ColorStr string | ColorTuple "int list"

definition normalize_color :: "(color_like \<Rightarrow> 'e + int list) \<Rightarrow> color_like \<Rightarrow> error + int list" where
  "normalize_color getrgb c =
     (case getrgb c of
        Inl e \<Rightarrow> Inl ValueError
      | Inr rgb \<Rightarrow> Inr (if length rgb > 3 then take 3 rgb else rgb))"

subsection \<open>\<^verbatim>\<open>_max_safe_logo_ratio\<close>\<close>

text \<open>The error-correction constants, with the values \<^verbatim>\<open>qrcode.constants\<close> gives them.\<close>

definition ERROR_CORRECT_L :: int where "ERROR_CORRECT_L = 1"
definition ERROR_CORRECT_M :: int where "ERROR_CORRECT_M = 0"
definition ERROR_CORRECT_Q :: int where "ERROR_CORRECT_Q = 3"
definition ERROR_CORRECT_H :: int where "ERROR_CORRECT_H = 2"

definition max_safe_logo_ratio :: "int \<Rightarrow> int \<Rightarrow> pyfloat" where
  "max_safe_logo_ratio ec_level modules_count =
     (let base =
            (case map_of [(ERROR_CORRECT_L, fl 0.12), (ERROR_CORRECT_M, fl 0.15),
                          (ERROR_CORRECT_Q, fl 0.18), (ERROR_CORRECT_H, fl 0.22)] ec_level of
               Some b \<Rightarrow> b
             | None \<Rightarrow> fl 0.18);
          penalty =
            (if modules_count \<ge> 45 then fl 0.03
             else if modules_count \<ge> 33 then fl 0.02
             else fl 0.0)
      in py_max (fl 0.08) (fsub base penalty))"

subsection \<open>\<^verbatim>\<open>_can_decode\<close>\<close>

text \<open>
  The scanner \<^verbatim>\<open>pyzbar.decode\<close> is a parameter: it returns the list of decoded records
  (each modelled by its \<^verbatim>\<open>data\<close> bytes) or raises. Without the scanner the image counts
  as decodable.
\<close>

definition can_decode :: "bool \<Rightarrow> ('img \<Rightarrow> 'e + string list) \<Rightarrow> 'img \<Rightarrow> bool" where
  "can_decode pyzbar_ok zbar_decode img =
     (if \<not> pyzbar_ok then True
      else case zbar_decode img of
             Inl e \<Rightarrow> False
           | Inr res \<Rightarrow> res \<noteq> [] \<and> hd res \<noteq> [])"

subsection \<open>\<^verbatim>\<open>create_qr_with_logo\<close>\<close>

text \<open>
  Lines 183 to 194: the pre-clamp for contact payloads. It returns the new
  \<^verbatim>\<open>logo_size_ratio\<close> and the new \<^verbatim>\<open>border_size\<close>.
\<close>

definition pre_clamp :: "(nat \<Rightarrow> nat list) \<Rightarrow> nat list \<Rightarrow> pyfloat \<Rightarrow> int \<Rightarrow> pyfloat \<times> int" where
  "pre_clamp uni data logo_size_ratio border_size =
     (let dat_upper = py_upper uni (py_strip data) in
      if startswith dat_upper (cps ''BEGIN:VCARD'') then
        (if f_gt logo_size_ratio (fl 0.16) then fl 0.16 else logo_size_ratio,
         max border_size 4)
      else if startswith dat_upper (cps ''MECARD:'') then
        (if f_gt logo_size_ratio (fl 0.18) then fl 0.18 else logo_size_ratio,
         max border_size 4)
      else (logo_size_ratio, border_size))"

text \<open>
  Lines 206 to 212: the cap, and the clamp of the ratio. \<^verbatim>\<open>modules_count\<close> is what the
  QR encoder reports for the payload.
\<close>

definition safe_cap :: "int \<Rightarrow> int \<Rightarrow> pyfloat" where
  "safe_cap error_correction modules_count =
     py_min (max_safe_logo_ratio error_correction modules_count) (fl 0.20)"

definition clamp_ratio :: "int \<Rightarrow> int \<Rightarrow> pyfloat \<Rightarrow> pyfloat" where
  "clamp_ratio error_correction modules_count logo_size_ratio =
     py_max (fl 0.08) (py_min logo_size_ratio (safe_cap error_correction modules_count))"

text \<open>The ratio and the border the function ends up using, from its arguments.\<close>

definition applied_ratio ::
  "(nat \<Rightarrow> nat list) \<Rightarrow> nat list \<Rightarrow> pyfloat \<Rightarrow> int \<Rightarrow> int \<Rightarrow> int \<Rightarrow> pyfloat" where
  "applied_ratio uni data logo_size_ratio border_size error_correction modules_count =
     clamp_ratio error_correction modules_count
       (fst (pre_clamp uni data logo_size_ratio border_size))"

definition applied_border :: "(nat \<Rightarrow> nat list) \<Rightarrow> nat list \<Rightarrow> pyfloat \<Rightarrow> int \<Rightarrow> int" where
  "applied_border uni data logo_size_ratio border_size =
     snd (pre_clamp uni data logo_size_ratio border_size)"

text \<open>
  Line 225: \<^verbatim>\<open>max_side = int(min(qr_w, qr_h) * logo_size_ratio)\<close>, from the size of the QR
  image and the applied ratio.
\<close>

definition max_side_px :: "int \<Rightarrow> int \<Rightarrow> pyfloat \<Rightarrow> error + int" where
  "max_side_px qr_w qr_h logo_size_ratio =
     bind_err (to_float (min qr_w qr_h)) (\<lambda>side. py_int (fmul side logo_size_ratio))"

text \<open>
  Lines 226 to 233: the size \<^verbatim>\<open>(new_w, new_h)\<close> asked of the resize, \<open>lw\<close> and \<open>lh\<close>
  being the size of the logo file.
\<close>

definition logo_target_size :: "int \<Rightarrow> int \<Rightarrow> pyfloat \<Rightarrow> int \<Rightarrow> int \<Rightarrow> error + int \<times> int" where
  "logo_target_size qr_w qr_h logo_size_ratio lw lh =
     bind_err (max_side_px qr_w qr_h logo_size_ratio) (\<lambda>max_side.
     bind_err (int_truediv lw lh) (\<lambda>aspect.
       if f_ge aspect (fl 1.0) then
         bind_err (to_float max_side) (\<lambda>m.
         bind_err (fdiv m aspect) (\<lambda>q.
         bind_err (py_round q) (\<lambda>new_h. Inr (max_side, new_h))))
       else
         bind_err (to_float max_side) (\<lambda>m.
         bind_err (py_round (fmul m aspect)) (\<lambda>new_w. Inr (new_w, max_side)))))"

text \<open>
  Line 234: \<^verbatim>\<open>logo.resize((new_w, new_h), ...)\<close>. The imaging library (Pillow) returns a
  copy when the size asked for is the size of the image; otherwise it refuses a size with
  a side below one pixel and raises \<^verbatim>\<open>ValueError\<close>, which nothing in the program catches.
  \<open>logo_new_size\<close> is the size of the logo after that line.
\<close>

definition pil_resize :: "int \<times> int \<Rightarrow> int \<times> int \<Rightarrow> error + int \<times> int" where
  "pil_resize im_size sz =
     (if sz = im_size then Inr sz
      else if fst sz < 1 \<or> snd sz < 1 then Inl ValueError
      else Inr sz)"

definition logo_new_size :: "int \<Rightarrow> int \<Rightarrow> pyfloat \<Rightarrow> int \<Rightarrow> int \<Rightarrow> error + int \<times> int" where
  "logo_new_size qr_w qr_h logo_size_ratio lw lh =
     bind_err (logo_target_size qr_w qr_h logo_size_ratio lw lh) (pil_resize (lw, lh))"

subsection \<open>The validation loop of \<^verbatim>\<open>main\<close>\<close>

text \<open>
  Lines 505 to 534. \<open>compose\<close> stands for the call of \<^verbatim>\<open>create_qr_with_logo\<close> with
  the current ratio (it returns the image or raises), \<open>zbar_decode\<close> for the scanner at
  each attempt. The loop is \<^verbatim>\<open>while True\<close>, so the model takes fuel: \<open>None\<close> means the
  loop is still running when the fuel is spent. \<open>tried\<close> records the ratios passed to
  \<open>compose\<close> so far; the result is the flag \<^verbatim>\<open>ok\<close>, the last ratio and that record.
\<close>

record ('img, 'e) loop_env =
  compose :: "pyfloat \<Rightarrow> error + 'img"
  validate :: bool
  auto_tune :: bool
  pyzbar_ok :: bool
  zbar_decode :: "nat \<Rightarrow> 'img \<Rightarrow> 'e + string list"

fun main_loop ::
  "nat \<Rightarrow> ('img, 'e) loop_env \<Rightarrow> pyfloat \<Rightarrow> pyfloat list \<Rightarrow> (error + bool \<times> pyfloat \<times> pyfloat list) option"
where
  "main_loop 0 env ratio tried = None"
| "main_loop (Suc fuel) env ratio tried =
     (case compose env ratio of
        Inl e \<Rightarrow> Some (Inl e)
      | Inr last_img \<Rightarrow>
          if validate env then
            (let ok = can_decode (pyzbar_ok env) (zbar_decode env (length tried)) last_img in
             if ok \<or> \<not> auto_tune env \<or> f_le ratio (fl 0.12)
             then Some (Inr (ok, ratio, tried @ [ratio]))
             else main_loop fuel env (py_max (fl 0.12) (py_round2 (fsub ratio (fl 0.02))))
                    (tried @ [ratio]))
          else Some (Inr (True, ratio, tried @ [ratio])))"

section \<open>The specification's formulas\<close>

text \<open>
  The table of base caps, the density penalty and the clamp, as the specification
  words them, to compare with the definitions above.
\<close>

definition spec_base :: "int \<Rightarrow> pyfloat" where
  "spec_base ec =
     (if ec = ERROR_CORRECT_L then fl 0.12
      else if ec = ERROR_CORRECT_M then fl 0.15
      else if ec = ERROR_CORRECT_Q then fl 0.18
      else fl 0.22)"

definition spec_penalty :: "int \<Rightarrow> pyfloat" where
  "spec_penalty modules_count =
     (if 45 \<le> modules_count then fl 0.03
      else if 33 \<le> modules_count \<and> modules_count < 45 then fl 0.02
      else fl 0)"

definition spec_clamp :: "pyfloat \<Rightarrow> pyfloat \<Rightarrow> pyfloat \<Rightarrow> pyfloat" where
  "spec_clamp x lo hi = (if f_lt x lo then lo else if f_gt x hi then hi else x)"

section \<open>Auxiliary definitions\<close>

text \<open>
  Modelled from the spec: the unescaping of the round-trip property, which the
  repository does not have. A backslash followed by \<open>n\<close> is a line feed, a backslash
  followed by any other character is that character.
\<close>

fun unescape_vcard :: "string \<Rightarrow> string" where
  "unescape_vcard [] = []"
| "unescape_vcard [c] = [c]"
| "unescape_vcard (c # d # cs) =
     (if c = BS then (if d = CHR ''n'' then LF else d) # unescape_vcard cs
      else c # unescape_vcard (d # cs))"

text \<open>
  The five replacements of \<^verbatim>\<open>_escape_vcard\<close> as one pass: what a single character
  becomes, after every CR LF pair has become one LF.
\<close>

definition esc_char :: "char \<Rightarrow> string" where
  "esc_char c =
     (if c = BS then [BS, BS]
      else if c = LF then [BS, CHR ''n'']
      else if c = CHR '';'' then [BS, CHR '';'']
      else if c = CHR '','' then [BS, CHR '','']
      else [c])"

fun crlf_to_lf :: "string \<Rightarrow> string" where
  "crlf_to_lf [] = []"
| "crlf_to_lf [c] = [c]"
| "crlf_to_lf (c # d # cs) =
     (if c = CR \<and> d = LF then LF # crlf_to_lf cs else c # crlf_to_lf (d # cs))"

definition bs_char :: "char \<Rightarrow> string" where
  "bs_char c = (if c = BS then [BS, BS] else [c])"

definition tail_char :: "char \<Rightarrow> string" where
  "tail_char c =
     (if c = LF then [BS, CHR ''n'']
      else if c = CHR '';'' then [BS, CHR '';'']
      else if c = CHR '','' then [BS, CHR '','']
      else [c])"

text \<open>Whether a payload is a contact record, as \<^verbatim>\<open>create_qr_with_logo\<close> tests it.\<close>

definition is_vcard :: "(nat \<Rightarrow> nat list) \<Rightarrow> nat list \<Rightarrow> bool" where
  "is_vcard uni data = startswith (py_upper uni (py_strip data)) (cps ''BEGIN:VCARD'')"

definition is_mecard :: "(nat \<Rightarrow> nat list) \<Rightarrow> nat list \<Rightarrow> bool" where
  "is_mecard uni data = startswith (py_upper uni (py_strip data)) (cps ''MECARD:'')"

text \<open>
  The payload-aware cap of the specification: the safe cap, lowered to 0.16 for a vCard
  and to 0.18 for a MECARD.
\<close>

definition spec_max_ratio :: "(nat \<Rightarrow> nat list) \<Rightarrow> nat list \<Rightarrow> int \<Rightarrow> int \<Rightarrow> pyfloat" where
  "spec_max_ratio uni data ec mc =
     (if is_vcard uni data then py_min (safe_cap ec mc) (fl 0.16)
      else if is_mecard uni data then py_min (safe_cap ec mc) (fl 0.18)
      else safe_cap ec mc)"

text \<open>
  An upper-casing table for the examples. It leaves every character as it is, as
  Unicode does for the characters outside ASCII that the examples use (white space).
\<close>

definition no_case :: "nat \<Rightarrow> nat list" where
  "no_case c = [c]"

text \<open>
  A run of the validation loop in which every image is composed and none decodes: the
  scanner is present and finds nothing, validation and auto-tune are on.
\<close>

definition undecodable :: "(unit, unit) loop_env" where
  "undecodable =
     \<lparr>compose = (\<lambda>r. Inr ()), validate = True, auto_tune = True, pyzbar_ok = True,
      zbar_decode = (\<lambda>i img. Inr [])\<rparr>"

text \<open>
  \<^verbatim>\<open>ImageColor.getrgb\<close> of the imaging library (Pillow) takes a string: before it
  parses, it lower-cases its argument with \<^verbatim>\<open>color.lower()\<close>, which a tuple does not
  have, so a tuple raises \<^verbatim>\<open>AttributeError\<close>. The parsing of the string is a parameter.
\<close>

definition pil_getrgb :: "(string \<Rightarrow> error + int list) \<Rightarrow> color_like \<Rightarrow> error + int list" where
  "pil_getrgb parse c =
     (case c of ColorTuple t \<Rightarrow> Inl AttributeError | ColorStr s \<Rightarrow> parse s)"

section \<open>Escaping of vCard fields\<close>

lemma str_replace_Nil: "old \<noteq> [] \<Longrightarrow> str_replace old new [] = []"
  by (simp add: str_replace.simps)

lemma str_replace_char:
  "str_replace [c] new s = concat (map (\<lambda>x. if x = c then new else [x]) s)"
proof (induction s)
  case Nil
  show ?case by (simp add: str_replace.simps)
next
  case (Cons a s)
  show ?case
    by (subst str_replace.simps) (simp add: Cons.IH)
qed

lemma crlf_step:
  "str_replace [CR, LF] new (a # X) =
     (if a = CR \<and> X \<noteq> [] \<and> hd X = LF then new @ str_replace [CR, LF] new (tl X)
      else a # str_replace [CR, LF] new X)"
  by (subst str_replace.simps) (cases X; auto)

lemma str_replace_crlf_eq: "str_replace [CR, LF] [LF] s = crlf_to_lf s"
  by (induction s rule: crlf_to_lf.induct) (simp_all add: crlf_step str_replace_Nil)

lemma tail_steps:
  "str_replace '','' [BS, CHR '','']
     (str_replace '';'' [BS, CHR '';''] (str_replace [LF] [BS, CHR ''n''] s))
   = concat (map tail_char s)"
  by (induction s) (simp_all add: str_replace_char tail_char_def)

lemma escape_single_pass:
  "concat (map tail_char (str_replace [CR, LF] [BS, CHR ''n''] (concat (map bs_char s))))
   = concat (map esc_char (crlf_to_lf s))"
proof (induction s rule: crlf_to_lf.induct)
  case 1
  show ?case by (simp add: str_replace_Nil)
next
  case (2 c)
  show ?case
    by (simp add: bs_char_def crlf_step str_replace_Nil tail_char_def esc_char_def)
next
  case (3 c d cs)
  show ?case
  proof (cases "c = CR \<and> d = LF")
    case True
    with 3 show ?thesis
      by (simp add: bs_char_def crlf_step tail_char_def esc_char_def)
  next
    case False
    with 3 show ?thesis
      by (auto simp add: bs_char_def crlf_step tail_char_def esc_char_def)
  qed
qed

lemma escape_vcard_eq: "escape_vcard (Some s) = concat (map esc_char (crlf_to_lf s))"
proof (cases "s = []")
  case True
  then show ?thesis by (simp add: escape_vcard_def)
next
  case False
  have "str_replace [BS] [BS, BS] s = concat (map bs_char s)"
    by (simp add: str_replace_char bs_char_def [abs_def])
  with False show ?thesis
    by (simp add: escape_vcard_def tail_steps escape_single_pass)
qed

lemma unescape_plain: "c \<noteq> BS \<Longrightarrow> unescape_vcard (c # r) = c # unescape_vcard r"
  by (cases r) simp_all

lemma unescape_esc_char: "unescape_vcard (esc_char c @ r) = c # unescape_vcard r"
  by (simp add: esc_char_def unescape_plain)

lemma unescape_concat: "unescape_vcard (concat (map esc_char s)) = s"
  by (induction s) (simp_all add: unescape_esc_char)

text \<open>
  Claim C7, as the program has it. \<^verbatim>\<open>_escape_vcard\<close> writes a CR LF pair and a lone
  LF as the same two characters, so escaping and then unescaping gives back the field
  with every CR LF pair replaced by LF, and two fields have the same escaped text
  exactly when they agree after that replacement. A field without a CR LF pair comes
  back unchanged.
\<close>

theorem escape_vcard_roundtrip:
  "unescape_vcard (escape_vcard (Some s)) = str_replace [CR, LF] [LF] s \<and>
   (escape_vcard (Some s) = escape_vcard (Some t)) =
     (str_replace [CR, LF] [LF] s = str_replace [CR, LF] [LF] t) \<and>
   (\<not> sublist [CR, LF] s \<longrightarrow> unescape_vcard (escape_vcard (Some s)) = s)"
proof -
  have rt: "unescape_vcard (escape_vcard (Some u)) = crlf_to_lf u" for u
    by (simp add: escape_vcard_eq unescape_concat)
  have inj: "(escape_vcard (Some s) = escape_vcard (Some t)) = (crlf_to_lf s = crlf_to_lf t)"
  proof
    assume "escape_vcard (Some s) = escape_vcard (Some t)"
    then have "unescape_vcard (escape_vcard (Some s)) = unescape_vcard (escape_vcard (Some t))"
      by simp
    then show "crlf_to_lf s = crlf_to_lf t" by (simp add: rt)
  next
    assume "crlf_to_lf s = crlf_to_lf t"
    then show "escape_vcard (Some s) = escape_vcard (Some t)" by (simp add: escape_vcard_eq)
  qed
  have same: "crlf_to_lf u = u" if "\<not> sublist [CR, LF] u" for u
    using that
  proof (induction u rule: crlf_to_lf.induct)
    case (3 c d cs)
    have a: "\<not> sublist [CR, LF] (d # cs)"
      using 3(3) by (meson sublist_Cons_right)
    have b: "\<not> (c = CR \<and> d = LF)"
      using 3(3) by (auto simp: sublist_def intro: exI[of _ "[]"])
    from 3(2)[OF b a] b show ?case by simp
  qed simp_all
  show ?thesis
    using rt inj same by (simp add: str_replace_crlf_eq)
qed

theorem escape_vcard_roundtrip_witness:
  "\<not> sublist [CR, LF] [CHR ''a'', CHR '';'', BS, LF, CHR '','', CHR ''n''] \<and>
   escape_vcard (Some [CHR ''a'', CHR '';'', BS, LF, CHR '','', CHR ''n'']) =
     [CHR ''a'', BS, CHR '';'', BS, BS, BS, CHR ''n'', BS, CHR '','', CHR ''n''] \<and>
   unescape_vcard (escape_vcard (Some [CHR ''a'', CHR '';'', BS, LF, CHR '','', CHR ''n''])) =
     [CHR ''a'', CHR '';'', BS, LF, CHR '','', CHR ''n'']"
proof -
  have n: "\<not> sublist [CR, LF] [CHR ''a'', CHR '';'', BS, LF, CHR '','', CHR ''n'']"
    by (simp add: sublist_Cons_right)
  have e: "escape_vcard (Some [CHR ''a'', CHR '';'', BS, LF, CHR '','', CHR ''n'']) =
     [CHR ''a'', BS, CHR '';'', BS, BS, BS, CHR ''n'', BS, CHR '','', CHR ''n'']"
    by (simp add: escape_vcard_eq esc_char_def)
  from n e escape_vcard_roundtrip [of "[CHR ''a'', CHR '';'', BS, LF, CHR '','', CHR ''n'']"]
  show ?thesis by blast
qed

text \<open>
  Claim C7 as stated fails on a field with a CR LF pair: it comes back with a lone LF,
  and no reader can do better, the escaped text being that of the field with a lone LF.
\<close>

theorem escape_vcard_crlf_counterexample:
  "unescape_vcard (escape_vcard (Some [CHR ''a'', CR, LF, CHR ''b''])) \<noteq> [CHR ''a'', CR, LF, CHR ''b''] \<and>
   escape_vcard (Some [CHR ''a'', CR, LF, CHR ''b'']) = escape_vcard (Some [CHR ''a'', LF, CHR ''b''])"
  by (simp add: escape_vcard_eq esc_char_def)

section \<open>Rounding to binary64\<close>

lemma rhe_unique: "\<bar>y - of_int n\<bar> < 1 / 2 \<Longrightarrow> rhe y = n"
proof -
  assume a: "\<bar>y - of_int n\<bar> < 1 / 2"
  have fl: "of_int \<lfloor>y\<rfloor> \<le> y" "y < of_int \<lfloor>y\<rfloor> + 1" by linarith+
  have "rat_of_int \<lfloor>y\<rfloor> < of_int n + 1" "rat_of_int n - 1 < of_int \<lfloor>y\<rfloor> + 1"
    using a fl by linarith+
  then have "rat_of_int \<lfloor>y\<rfloor> < of_int (n + 1)" "rat_of_int (n - 1) < of_int (\<lfloor>y\<rfloor> + 1)"
    by simp_all
  then have "\<lfloor>y\<rfloor> < n + 1" "n - 1 < \<lfloor>y\<rfloor> + 1"
    by (simp_all only: of_int_less_iff)
  then have "\<lfloor>y\<rfloor> = n \<or> \<lfloor>y\<rfloor> = n - 1"
    by linarith
  then show ?thesis
  proof
    assume f: "\<lfloor>y\<rfloor> = n"
    then have "y - of_int \<lfloor>y\<rfloor> < 1 / 2" using a by linarith
    then show ?thesis by (simp add: rhe_def Let_def f)
  next
    assume f: "\<lfloor>y\<rfloor> = n - 1"
    have "1 / 2 < y - (of_int n - 1)" using a by linarith
    then have "1 / 2 < y - of_int \<lfloor>y\<rfloor>" by (simp add: f)
    then show ?thesis by (simp add: rhe_def Let_def f)
  qed
qed

lemma rhe_bounds: "\<bar>of_int (rhe y) - y\<bar> \<le> 1 / 2"
proof -
  have "of_int \<lfloor>y\<rfloor> \<le> y" "y < of_int \<lfloor>y\<rfloor> + 1" by linarith+
  then show ?thesis
    by (auto simp: rhe_def Let_def abs_le_iff)
qed

lemma ilog2_bounds:
  assumes "x \<noteq> 0"
  shows "2 powi (ilog2 x) \<le> \<bar>x\<bar>" and "\<bar>x\<bar> < 2 powi (ilog2 x + 1)"
proof -
  define a where "a = \<bar>x\<bar>"
  have apos: "0 < a" using assms by (simp add: a_def)
  have "2 powi (ilog2 x) \<le> a \<and> a < 2 powi (ilog2 x + 1)"
  proof (cases "1 \<le> a")
    case True
    define f where "f = \<lfloor>a\<rfloor>"
    have f1: "1 \<le> f" using True by (simp add: f_def)
    then have fpos: "0 < f" by simp
    from bitlen_bounds[OF fpos] have b: "2 ^ nat (bitlen f - 1) \<le> f" "f < 2 ^ nat (bitlen f)"
      by auto
    have bl: "1 \<le> bitlen f" using fpos by (simp add: bitlen_def floorlog_def)
    have e: "ilog2 x = bitlen f - 1"
      using True by (simp add: ilog2_def a_def[symmetric] f_def Let_def)
    have "(2::rat) ^ nat (bitlen f - 1) = of_int (2 ^ nat (bitlen f - 1))" by simp
    also have "\<dots> \<le> of_int f" using b(1) by (simp only: of_int_le_iff)
    also have "\<dots> \<le> a" unfolding f_def by linarith
    finally have l: "2 powi (bitlen f - 1) \<le> a"
      using bl by (simp add: power_int_def)
    have "f + 1 \<le> 2 ^ nat (bitlen f)" using b(2) by simp
    then have "rat_of_int (f + 1) \<le> of_int (2 ^ nat (bitlen f))" by (simp only: of_int_le_iff)
    also have "\<dots> = 2 ^ nat (bitlen f)" by simp
    finally have "rat_of_int (f + 1) \<le> 2 ^ nat (bitlen f)" .
    moreover have "a < of_int (f + 1)" unfolding f_def by linarith
    ultimately have "a < 2 ^ nat (bitlen f)" by linarith
    then have u: "a < 2 powi (bitlen f)"
      using bl by (simp add: power_int_def)
    from l u e show ?thesis by simp
  next
    case False
    define m where "m = \<lceil>1 / a\<rceil>"
    have y1: "1 < 1 / a" using False apos by simp
    have m2: "2 \<le> m" using y1 unfolding m_def by linarith
    then have mpos: "0 < m - 1" by simp
    define k where "k = bitlen (m - 1)"
    from bitlen_bounds[OF mpos] have b: "2 ^ nat (k - 1) \<le> m - 1" "m - 1 < 2 ^ nat k"
      by (auto simp: k_def)
    have kl: "1 \<le> k" using mpos by (simp add: k_def bitlen_def floorlog_def)
    have e: "ilog2 x = - k"
      using False by (simp add: ilog2_def a_def[symmetric] m_def k_def Let_def)
    have "m \<le> 2 ^ nat k" using b(2) by simp
    then have "rat_of_int m \<le> of_int (2 ^ nat k)" by (simp only: of_int_le_iff)
    also have "\<dots> = 2 ^ nat k" by simp
    finally have "rat_of_int m \<le> 2 ^ nat k" .
    moreover have "1 / a \<le> of_int m" unfolding m_def by linarith
    ultimately have "1 / a \<le> 2 ^ nat k" by linarith
    then have "1 \<le> 2 ^ nat k * a" using apos by (simp add: field_simps)
    then have l: "2 powi (- k) \<le> a"
      using kl by (simp add: power_int_def field_simps)
    have "(2::rat) ^ nat (k - 1) = of_int (2 ^ nat (k - 1))" by simp
    also have "\<dots> \<le> of_int (m - 1)" using b(1) by (simp only: of_int_le_iff)
    finally have "(2::rat) ^ nat (k - 1) \<le> of_int (m - 1)" .
    moreover have "rat_of_int (m - 1) < 1 / a" unfolding m_def by linarith
    ultimately have "2 ^ nat (k - 1) < 1 / a" by linarith
    then have "2 ^ nat (k - 1) * a < 1" using apos by (simp add: field_simps)
    then have "a < 1 / 2 ^ nat (k - 1)" by (simp add: field_simps)
    moreover have "(2::rat) powi (- k + 1) = 1 / 2 ^ nat (k - 1)"
      using kl by (simp add: power_int_def field_simps nat_diff_distrib)
    ultimately have u: "a < 2 powi (- k + 1)"
      by (simp only:)
    from l u e show ?thesis by simp
  qed
  then show "2 powi (ilog2 x) \<le> \<bar>x\<bar>" and "\<bar>x\<bar> < 2 powi (ilog2 x + 1)"
    by (simp_all add: a_def)
qed


lemma powi2_less_D: "(2::rat) powi a < 2 powi b \<Longrightarrow> a < b"
proof (rule ccontr)
  assume l: "(2::rat) powi a < 2 powi b" and "\<not> a < b"
  then have "b \<le> a" by simp
  then have "(2::rat) powi b \<le> 2 powi a" by (rule power_int_increasing) simp
  with l show False by simp
qed

lemma ilog2_unique:
  assumes "2 powi e \<le> \<bar>x\<bar>" and "\<bar>x\<bar> < 2 powi (e + 1)"
  shows "ilog2 x = e"
proof -
  have "(0::rat) < 2 powi e" by simp
  with assms(1) have "0 < \<bar>x\<bar>" by linarith
  then have x0: "x \<noteq> 0" by simp
  note b = ilog2_bounds[OF x0]
  have "(2::rat) powi e < 2 powi (ilog2 x + 1)" using assms(1) b(2) by linarith
  then have 1: "e < ilog2 x + 1" by (rule powi2_less_D)
  have "(2::rat) powi (ilog2 x) < 2 powi (e + 1)" using assms(2) b(1) by linarith
  then have 2: "ilog2 x < e + 1" by (rule powi2_less_D)
  from 1 2 show ?thesis by simp
qed

lemma powi2_split: "(2::rat) powi (e + 1) = 2 ^ 53 * 2 powi (e - 52)"
proof -
  have "e + 1 = 53 + (e - 52)" by simp
  then have "(2::rat) powi (e + 1) = 2 powi (53 + (e - 52))" by (simp only:)
  also have "\<dots> = 2 powi 53 * 2 powi (e - 52)" by (rule power_int_add) simp
  finally show ?thesis by simp
qed

text \<open>In the normal range the result is finite and the quantum follows the exponent.\<close>

lemma fl_normal:
  assumes x0: "x \<noteq> 0" and lo: "- 1022 \<le> ilog2 x" and hi: "ilog2 x < 1023"
  shows "fl x = Fin (of_int (rhe (x / 2 powi (ilog2 x - 52))) * 2 powi (ilog2 x - 52))"
proof -
  define e where "e = ilog2 x"
  define q :: rat where "q = 2 powi (e - 52)"
  define y where "y = x / q"
  define n where "n = rhe y"
  have qpos: "0 < q" by (simp add: q_def)
  have mx: "max (e - 52) (- 1074) = e - 52" using lo by (simp add: e_def)
  have "\<bar>x\<bar> < 2 powi (e + 1)" unfolding e_def using x0 by (rule ilog2_bounds)
  also have "(2::rat) powi (e + 1) = 2 ^ 53 * q"
    unfolding q_def by (rule powi2_split)
  finally have "\<bar>y\<bar> < 2 ^ 53" using qpos by (simp add: y_def abs_divide field_simps)
  moreover have "\<bar>of_int n - y\<bar> \<le> 1 / 2" unfolding n_def by (rule rhe_bounds)
  ultimately have "\<bar>rat_of_int n\<bar> < 2 ^ 53 + 1" by linarith
  then have "rat_of_int \<bar>n\<bar> < of_int (2 ^ 53 + 1)" by simp
  then have "\<bar>n\<bar> < 2 ^ 53 + 1" by (simp only: of_int_less_iff)
  then have "\<bar>n\<bar> \<le> 2 ^ 53" by simp
  then have "rat_of_int \<bar>n\<bar> \<le> of_int (2 ^ 53)" by (simp only: of_int_le_iff)
  then have nb: "\<bar>rat_of_int n\<bar> \<le> 2 ^ 53" by simp
  have "\<bar>of_int n * q\<bar> = \<bar>of_int n\<bar> * q" using qpos by (simp add: abs_mult)
  also have "\<dots> \<le> 2 ^ 53 * q" using nb qpos by (simp add: mult_right_mono)
  also have "\<dots> = 2 powi (e + 1)"
    unfolding q_def by (rule powi2_split[symmetric])
  also have "\<dots> \<le> 2 powi 1023" using hi by (intro power_int_increasing) (simp_all add: e_def)
  also have "\<dots> < 2 ^ 1024" by (simp add: power_int_def)
  finally have "\<not> 2 ^ 1024 \<le> \<bar>of_int n * q\<bar>" by simp
  then show ?thesis
    using x0 mx
    by (simp add: fl_def Let_def e_def[symmetric] q_def[symmetric] y_def[symmetric] n_def[symmetric])
qed

lemma fl_error:
  assumes x0: "x \<noteq> 0" and lo: "- 1022 \<le> ilog2 x" and hi: "ilog2 x < 1023"
  obtains r where "fl x = Fin r" and "\<bar>r - x\<bar> \<le> \<bar>x\<bar> / 2 ^ 53"
proof -
  define e where "e = ilog2 x"
  define q :: rat where "q = 2 powi (e - 52)"
  define r where "r = of_int (rhe (x / q)) * q"
  have qpos: "0 < q" by (simp add: q_def)
  have f: "fl x = Fin r" unfolding r_def q_def e_def using assms by (rule fl_normal)
  have "\<bar>of_int (rhe (x / q)) - x / q\<bar> \<le> 1 / 2" by (rule rhe_bounds)
  then have "\<bar>of_int (rhe (x / q)) - x / q\<bar> * q \<le> 1 / 2 * q"
    using qpos by (intro mult_right_mono) simp_all
  moreover have "\<bar>of_int (rhe (x / q)) - x / q\<bar> * q = \<bar>r - x\<bar>"
    using qpos by (simp add: r_def abs_mult[symmetric] field_simps del: abs_mult)
  ultimately have "\<bar>r - x\<bar> \<le> q / 2" by simp
  also have "q / 2 = 2 powi e / 2 ^ 53"
    unfolding q_def by (simp add: power_int_diff power_int_def [of _ 52])
  also have "\<dots> \<le> \<bar>x\<bar> / 2 ^ 53"
    using ilog2_bounds(1)[OF x0] by (simp add: e_def divide_right_mono)
  finally show ?thesis using f that by blast
qed

text \<open>A certificate for one rounding: the exponent and the integer significand.\<close>

lemma fl_eqI:
  assumes "2 powi e \<le> \<bar>x\<bar>" and "\<bar>x\<bar> < 2 powi (e + 1)"
    and "- 1022 \<le> e" and "e < 1023"
    and "\<bar>x / 2 powi (e - 52) - of_int n\<bar> < 1 / 2"
  shows "fl x = Fin (of_int n * 2 powi (e - 52))"
proof -
  have "(0::rat) < 2 powi e" by simp
  with assms(1) have "0 < \<bar>x\<bar>" by linarith
  then have x0: "x \<noteq> 0" by simp
  have e: "ilog2 x = e" using assms(1,2) by (rule ilog2_unique)
  have r: "rhe (x / 2 powi (e - 52)) = n" using assms(5) by (rule rhe_unique)
  show ?thesis
    using fl_normal[OF x0] assms(3,4) by (simp add: e r)
qed

lemma ilog2_range:
  assumes "2 powi l \<le> \<bar>x\<bar>" and "\<bar>x\<bar> < 2 powi h"
  shows "l \<le> ilog2 x" and "ilog2 x < h"
proof -
  have "(0::rat) < 2 powi l" by simp
  with assms(1) have "0 < \<bar>x\<bar>" by linarith
  then have x0: "x \<noteq> 0" by simp
  note b = ilog2_bounds [OF x0]
  have "(2::rat) powi l < 2 powi (ilog2 x + 1)" using assms(1) b(2) by linarith
  then have "l < ilog2 x + 1" by (rule powi2_less_D)
  then show "l \<le> ilog2 x" by simp
  have "(2::rat) powi (ilog2 x) < 2 powi h" using assms(2) b(1) by linarith
  then show "ilog2 x < h" by (rule powi2_less_D)
qed

text \<open>The rounding error in a range that covers every quantity of the layout.\<close>

lemma fl_close:
  assumes "1 / 2 ^ 64 \<le> x" and "x < 2 ^ 64"
  obtains r where "fl x = Fin r"
    and "x - x / 9007199254740992 \<le> r" and "r \<le> x + x / 9007199254740992"
proof -
  have "(0::rat) < 1 / 2 ^ 64" by simp
  with assms(1) have xpos: "0 < x" by linarith
  have l: "(2::rat) powi (- 64) \<le> \<bar>x\<bar>" using assms(1) xpos by (simp add: power_int_minus field_simps)
  have h: "\<bar>x\<bar> < 2 powi 64" using assms(2) xpos by simp
  note e = ilog2_range [OF l h]
  obtain r where r: "fl x = Fin r" "\<bar>r - x\<bar> \<le> \<bar>x\<bar> / 2 ^ 53"
    using fl_error [of x] xpos e by auto
  have "\<bar>r - x\<bar> \<le> x / 9007199254740992" using r(2) xpos by simp
  then have "x - x / 9007199254740992 \<le> r" "r \<le> x + x / 9007199254740992"
    by linarith+
  with r(1) that show ?thesis by blast
qed

lemma fl_int_exact:
  assumes "\<bar>n\<bar> < 2 ^ 53"
  shows "fl (of_int n) = Fin (of_int n)"
proof (cases "n = 0")
  case True
  then show ?thesis by (simp add: fl_def)
next
  case False
  define x where "x = rat_of_int n"
  define e where "e = ilog2 x"
  have x0: "x \<noteq> 0" using False by (simp add: x_def)
  have "1 \<le> \<bar>n\<bar>" using False by simp
  then have "rat_of_int 1 \<le> of_int \<bar>n\<bar>" by (simp only: of_int_le_iff)
  then have l: "(2::rat) powi 0 \<le> \<bar>x\<bar>" by (simp add: x_def)
  have "rat_of_int \<bar>n\<bar> < of_int (2 ^ 53)" using assms by (simp only: of_int_less_iff)
  then have h: "\<bar>x\<bar> < 2 powi 53" by (simp add: x_def)
  have e: "0 \<le> e" "e < 53" unfolding e_def using ilog2_range [OF l h] by auto
  have q: "(2::rat) powi (e - 52) = 1 / 2 ^ nat (52 - e)"
    using e by (simp add: power_int_def field_simps)
  have y: "x / 2 powi (e - 52) = of_int (n * 2 ^ nat (52 - e))"
    by (simp add: q x_def)
  have "rhe (x / 2 powi (e - 52)) = n * 2 ^ nat (52 - e)"
    unfolding y by (rule rhe_unique) simp
  then have "fl x = Fin (of_int (n * 2 ^ nat (52 - e)) * 2 powi (e - 52))"
    using fl_normal [OF x0] e by (simp add: e_def)
  also have "of_int (n * 2 ^ nat (52 - e)) * 2 powi (e - 52) = x"
    by (simp add: q x_def)
  finally show ?thesis by (simp add: x_def)
qed




section \<open>The float literals and differences of the program, evaluated\<close>

lemma fl_008: "fl 0.08 = Fin (5764607523034235 / 72057594037927936)"
  using fl_eqI [of "- 4" "0.08" 5764607523034235]
  by (simp add: power_int_minus)

lemma fl_012: "fl 0.12 = Fin (1080863910568919 / 9007199254740992)"
  using fl_eqI [of "- 4" "0.12" 8646911284551352]
  by (simp add: power_int_minus)

lemma fl_014: "fl 0.14 = Fin (1261007895663739 / 9007199254740992)"
  using fl_eqI [of "- 3" "0.14" 5044031582654956]
  by (simp add: power_int_minus)

lemma fl_015: "fl 0.15 = Fin (5404319552844595 / 36028797018963968)"
  using fl_eqI [of "- 3" "0.15" 5404319552844595]
  by (simp add: power_int_minus)

lemma fl_016: "fl 0.16 = Fin (5764607523034235 / 36028797018963968)"
  using fl_eqI [of "- 3" "0.16" 5764607523034235]
  by (simp add: power_int_minus)

lemma fl_018: "fl 0.18 = Fin (3242591731706757 / 18014398509481984)"
  using fl_eqI [of "- 3" "0.18" 6485183463413514]
  by (simp add: power_int_minus)

lemma fl_020: "fl 0.20 = Fin (3602879701896397 / 18014398509481984)"
  using fl_eqI [of "- 3" "0.20" 7205759403792794]
  by (simp add: power_int_minus)

lemma fl_022: "fl 0.22 = Fin (7926335344172073 / 36028797018963968)"
  using fl_eqI [of "- 3" "0.22" 7926335344172073]
  by (simp add: power_int_minus)

lemma fl_002: "fl 0.02 = Fin (5764607523034235 / 288230376151711744)"
  using fl_eqI [of "- 6" "0.02" 5764607523034235]
  by (simp add: power_int_minus)

lemma fl_003: "fl 0.03 = Fin (1080863910568919 / 36028797018963968)"
  using fl_eqI [of "- 6" "0.03" 8646911284551352]
  by (simp add: power_int_minus)

lemma fl_0: "fl 0 = Fin 0"
  by (simp add: fl_def)

lemma fl_zero: "fl 0.0 = Fin 0"
  by (simp add: fl_def)

lemma fl_one: "fl 1.0 = Fin 1"
  using fl_eqI [of 0 1 4503599627370496]
  by simp

lemmas fl_lits =
  fl_008 fl_012 fl_014 fl_015 fl_016 fl_018 fl_020 fl_022 fl_002 fl_003 fl_0 fl_zero fl_one

lemma sub_012_003:
  "fsub (Fin (1080863910568919 / 9007199254740992))
        (Fin (1080863910568919 / 36028797018963968)) =
   Fin (3242591731706757 / 36028797018963968)"
  using fl_eqI [of "- 4" "1080863910568919 / 9007199254740992 - 1080863910568919 / 36028797018963968" 6485183463413514]
  by (simp add: power_int_minus)

lemma sub_012_002:
  "fsub (Fin (1080863910568919 / 9007199254740992))
        (Fin (5764607523034235 / 288230376151711744)) =
   Fin (7205759403792793 / 72057594037927936)"
  using fl_eqI [of "- 4" "1080863910568919 / 9007199254740992 - 5764607523034235 / 288230376151711744" 7205759403792793]
  by (simp add: power_int_minus)

lemma sub_015_003:
  "fsub (Fin (5404319552844595 / 36028797018963968))
        (Fin (1080863910568919 / 36028797018963968)) =
   Fin (1080863910568919 / 9007199254740992)"
  using fl_eqI [of "- 4" "5404319552844595 / 36028797018963968 - 1080863910568919 / 36028797018963968" 8646911284551352]
  by (simp add: power_int_minus)

lemma sub_015_002:
  "fsub (Fin (5404319552844595 / 36028797018963968))
        (Fin (5764607523034235 / 288230376151711744)) =
   Fin (1170935903116329 / 9007199254740992)"
  using fl_eqI [of "- 3" "5404319552844595 / 36028797018963968 - 5764607523034235 / 288230376151711744" 4683743612465316]
  by (simp add: power_int_minus)

lemma sub_018_003:
  "fsub (Fin (3242591731706757 / 18014398509481984))
        (Fin (1080863910568919 / 36028797018963968)) =
   Fin (5404319552844595 / 36028797018963968)"
  using fl_eqI [of "- 3" "3242591731706757 / 18014398509481984 - 1080863910568919 / 36028797018963968" 5404319552844595]
  by (simp add: power_int_minus)

lemma sub_018_002:
  "fsub (Fin (3242591731706757 / 18014398509481984))
        (Fin (5764607523034235 / 288230376151711744)) =
   Fin (5764607523034235 / 36028797018963968)"
  using fl_eqI [of "- 3" "3242591731706757 / 18014398509481984 - 5764607523034235 / 288230376151711744" 5764607523034235]
  by (simp add: power_int_minus)

lemma sub_022_003:
  "fsub (Fin (7926335344172073 / 36028797018963968))
        (Fin (1080863910568919 / 36028797018963968)) =
   Fin (3422735716801577 / 18014398509481984)"
  using fl_eqI [of "- 3" "7926335344172073 / 36028797018963968 - 1080863910568919 / 36028797018963968" 6845471433603154]
  by (simp add: power_int_minus)

lemma sub_022_002:
  "fsub (Fin (7926335344172073 / 36028797018963968))
        (Fin (5764607523034235 / 288230376151711744)) =
   Fin (3602879701896397 / 18014398509481984)"
  using fl_eqI [of "- 3" "7926335344172073 / 36028797018963968 - 5764607523034235 / 288230376151711744" 7205759403792794]
  by (simp add: power_int_minus)

lemma sub_016_002:
  "fsub (Fin (5764607523034235 / 36028797018963968))
        (Fin (5764607523034235 / 288230376151711744)) =
   Fin (1261007895663739 / 9007199254740992)"
  using fl_eqI [of "- 3" "5764607523034235 / 36028797018963968 - 5764607523034235 / 288230376151711744" 5044031582654956]
  by (simp add: power_int_minus)

lemma sub_014_002:
  "fsub (Fin (1261007895663739 / 9007199254740992))
        (Fin (5764607523034235 / 288230376151711744)) =
   Fin (8646911284551353 / 72057594037927936)"
  using fl_eqI [of "- 4" "1261007895663739 / 9007199254740992 - 5764607523034235 / 288230376151711744" 8646911284551353]
  by (simp add: power_int_minus)

lemmas fl_subs =
  sub_012_003 sub_012_002 sub_015_003 sub_015_002 sub_018_003
  sub_018_002 sub_022_003 sub_022_002 sub_016_002 sub_014_002

lemma sub_012_0:
  "fsub (Fin (1080863910568919 / 9007199254740992)) (Fin 0) =
   Fin (1080863910568919 / 9007199254740992)"
  using fl_eqI [of "- 4" "1080863910568919 / 9007199254740992" 8646911284551352]
  by (simp add: power_int_minus)

lemma sub_015_0:
  "fsub (Fin (5404319552844595 / 36028797018963968)) (Fin 0) =
   Fin (5404319552844595 / 36028797018963968)"
  using fl_eqI [of "- 3" "5404319552844595 / 36028797018963968" 5404319552844595]
  by (simp add: power_int_minus)

lemma sub_018_0:
  "fsub (Fin (3242591731706757 / 18014398509481984)) (Fin 0) =
   Fin (3242591731706757 / 18014398509481984)"
  using fl_eqI [of "- 3" "3242591731706757 / 18014398509481984" 6485183463413514]
  by (simp add: power_int_minus)

lemma sub_022_0:
  "fsub (Fin (7926335344172073 / 36028797018963968)) (Fin 0) =
   Fin (7926335344172073 / 36028797018963968)"
  using fl_eqI [of "- 3" "7926335344172073 / 36028797018963968" 7926335344172073]
  by (simp add: power_int_minus)

lemmas fl_sub_zero = sub_012_0 sub_015_0 sub_018_0 sub_022_0

lemma round2_016:
  "py_round2 (Fin (5764607523034235 / 36028797018963968)) =
   Fin (5764607523034235 / 36028797018963968)"
proof -
  have r: "rhe (100 * (5764607523034235 / 36028797018963968)) = 16"
    by (rule rhe_unique) simp
  have "fl (of_int 16 / 100) = Fin (5764607523034235 / 36028797018963968)"
    using fl_eqI [of "- 3" "of_int 16 / 100" 5764607523034235]
    by (simp add: power_int_minus)
  then show ?thesis
    unfolding py_round2.simps r .
qed

lemma round2_014:
  "py_round2 (Fin (1261007895663739 / 9007199254740992)) =
   Fin (1261007895663739 / 9007199254740992)"
proof -
  have r: "rhe (100 * (1261007895663739 / 9007199254740992)) = 14"
    by (rule rhe_unique) simp
  have "fl (of_int 14 / 100) = Fin (1261007895663739 / 9007199254740992)"
    using fl_eqI [of "- 3" "of_int 14 / 100" 5044031582654956]
    by (simp add: power_int_minus)
  then show ?thesis
    unfolding py_round2.simps r .
qed

lemma round2_012:
  "py_round2 (Fin (8646911284551353 / 72057594037927936)) =
   Fin (1080863910568919 / 9007199254740992)"
proof -
  have r: "rhe (100 * (8646911284551353 / 72057594037927936)) = 12"
    by (rule rhe_unique) simp
  have "fl (of_int 12 / 100) = Fin (1080863910568919 / 9007199254740992)"
    using fl_eqI [of "- 4" "of_int 12 / 100" 8646911284551352]
    by (simp add: power_int_minus)
  then show ?thesis
    unfolding py_round2.simps r .
qed

section \<open>The safe cap\<close>

text \<open>The twelve values of \<^verbatim>\<open>_max_safe_logo_ratio\<close>, and the three of an unknown level.\<close>

lemma max_safe_table:
  "max_safe_logo_ratio ec mc =
     (if ec = ERROR_CORRECT_L then
        (if 45 \<le> mc then Fin (3242591731706757 / 36028797018963968)
         else if 33 \<le> mc then Fin (7205759403792793 / 72057594037927936)
         else Fin (1080863910568919 / 9007199254740992))
      else if ec = ERROR_CORRECT_M then
        (if 45 \<le> mc then Fin (1080863910568919 / 9007199254740992)
         else if 33 \<le> mc then Fin (1170935903116329 / 9007199254740992)
         else Fin (5404319552844595 / 36028797018963968))
      else if ec = ERROR_CORRECT_H then
        (if 45 \<le> mc then Fin (3422735716801577 / 18014398509481984)
         else if 33 \<le> mc then Fin (3602879701896397 / 18014398509481984)
         else Fin (7926335344172073 / 36028797018963968))
      else
        (if 45 \<le> mc then Fin (5404319552844595 / 36028797018963968)
         else if 33 \<le> mc then Fin (5764607523034235 / 36028797018963968)
         else Fin (3242591731706757 / 18014398509481984)))"
  unfolding max_safe_logo_ratio_def Let_def fl_lits
  by (simp del: fsub.simps(1) add: fl_subs fl_sub_zero py_max_def f_gt_def
        ERROR_CORRECT_L_def ERROR_CORRECT_M_def ERROR_CORRECT_Q_def ERROR_CORRECT_H_def)

lemma safe_cap_table:
  "safe_cap ec mc =
     (if ec = ERROR_CORRECT_L then
        (if 45 \<le> mc then Fin (3242591731706757 / 36028797018963968)
         else if 33 \<le> mc then Fin (7205759403792793 / 72057594037927936)
         else Fin (1080863910568919 / 9007199254740992))
      else if ec = ERROR_CORRECT_M then
        (if 45 \<le> mc then Fin (1080863910568919 / 9007199254740992)
         else if 33 \<le> mc then Fin (1170935903116329 / 9007199254740992)
         else Fin (5404319552844595 / 36028797018963968))
      else if ec = ERROR_CORRECT_H then
        (if 45 \<le> mc then Fin (3422735716801577 / 18014398509481984)
         else if 33 \<le> mc then Fin (3602879701896397 / 18014398509481984)
         else Fin (3602879701896397 / 18014398509481984))
      else
        (if 45 \<le> mc then Fin (5404319552844595 / 36028797018963968)
         else if 33 \<le> mc then Fin (5764607523034235 / 36028797018963968)
         else Fin (3242591731706757 / 18014398509481984)))"
  unfolding safe_cap_def max_safe_table fl_lits
  by (simp add: py_min_def)

lemma safe_cap_range:
  "f_le (fl 0.08) (safe_cap ec mc) \<and> f_le (safe_cap ec mc) (fl 0.20)"
  unfolding fl_lits by (simp add: safe_cap_table)

lemma f_le_between:
  "f_le (Fin a) x \<Longrightarrow> f_le x (Fin b) \<Longrightarrow> \<exists>c. x = Fin c \<and> a \<le> c \<and> c \<le> b"
  by (cases x) simp_all

text \<open>
  Claim C1. The cap \<^verbatim>\<open>create_qr_with_logo\<close> uses (lines 207 to 209) is, for the four
  levels, \<open>min (max 0.08 (base - penalty)) 0.20\<close> with the base and the penalty of the
  specification's table; the subtraction, \<^verbatim>\<open>max\<close> and \<^verbatim>\<open>min\<close> are those of Python floats.
\<close>

theorem safe_cap_formula:
  assumes "ec \<in> {ERROR_CORRECT_L, ERROR_CORRECT_M, ERROR_CORRECT_Q, ERROR_CORRECT_H}"
  shows "safe_cap ec mc =
    py_min (py_max (fl 0.08) (fsub (spec_base ec) (spec_penalty mc))) (fl 0.20)"
proof -
  have b: "(case map_of [(ERROR_CORRECT_L, fl 0.12), (ERROR_CORRECT_M, fl 0.15),
                          (ERROR_CORRECT_Q, fl 0.18), (ERROR_CORRECT_H, fl 0.22)] ec of
              Some b \<Rightarrow> b | None \<Rightarrow> fl 0.18) = spec_base ec"
    using assms
    by (auto simp: spec_base_def ERROR_CORRECT_L_def ERROR_CORRECT_M_def
          ERROR_CORRECT_Q_def ERROR_CORRECT_H_def)
  have p: "(if mc \<ge> 45 then fl 0.03 else if mc \<ge> 33 then fl 0.02 else fl 0.0) = spec_penalty mc"
    by (simp add: spec_penalty_def fl_zero fl_0)
  show ?thesis
    unfolding safe_cap_def max_safe_logo_ratio_def Let_def b p ..
qed

theorem safe_cap_formula_witness:
  "ERROR_CORRECT_L \<in> {ERROR_CORRECT_L, ERROR_CORRECT_M, ERROR_CORRECT_Q, ERROR_CORRECT_H} \<and>
   safe_cap ERROR_CORRECT_L 50 =
     py_min (py_max (fl 0.08) (fsub (spec_base ERROR_CORRECT_L) (spec_penalty 50))) (fl 0.20) \<and>
   safe_cap ERROR_CORRECT_L 50 = Fin (3242591731706757 / 36028797018963968)"
  using safe_cap_formula [of ERROR_CORRECT_L 50]
  by (simp add: safe_cap_table)

text \<open>
  Claim C6. For a fixed module count the cap does not decrease from L to M to Q to H,
  before the ceiling of 0.20 (\<^verbatim>\<open>_max_safe_logo_ratio\<close>) and after it.
\<close>

theorem safe_cap_monotone:
  "f_le (max_safe_logo_ratio ERROR_CORRECT_L mc) (max_safe_logo_ratio ERROR_CORRECT_M mc) \<and>
   f_le (max_safe_logo_ratio ERROR_CORRECT_M mc) (max_safe_logo_ratio ERROR_CORRECT_Q mc) \<and>
   f_le (max_safe_logo_ratio ERROR_CORRECT_Q mc) (max_safe_logo_ratio ERROR_CORRECT_H mc) \<and>
   f_le (safe_cap ERROR_CORRECT_L mc) (safe_cap ERROR_CORRECT_M mc) \<and>
   f_le (safe_cap ERROR_CORRECT_M mc) (safe_cap ERROR_CORRECT_Q mc) \<and>
   f_le (safe_cap ERROR_CORRECT_Q mc) (safe_cap ERROR_CORRECT_H mc)"
  by (simp add: max_safe_table safe_cap_table ERROR_CORRECT_L_def ERROR_CORRECT_M_def
        ERROR_CORRECT_Q_def ERROR_CORRECT_H_def)

section \<open>The applied ratio and the border\<close>

lemma mecard_not_vcard: "is_mecard uni data \<Longrightarrow> \<not> is_vcard uni data"
  by (cases "py_upper uni (py_strip data)")
    (auto simp: is_mecard_def is_vcard_def startswith_def cps_def)

text \<open>
  The test is a case-insensitive prefix test after the white space: a payload made of
  white space, then the marker spelt in ASCII letters of either case, then anything,
  is detected, whatever the table \<open>uni\<close>.
\<close>

lemma strip_right_keeps:
  assumes "p \<noteq> []" and "\<not> P (last p)"
  shows "\<exists>r. rev (dropWhile P (rev (p @ rest))) = p @ r"
proof (induction rest rule: rev_induct)
  case Nil
  have "dropWhile P (rev p) = rev p"
    using assms by (cases "rev p") (auto simp: last_rev hd_rev)
  then show ?case by simp
next
  case (snoc x xs)
  show ?case
  proof (cases "P x")
    case True
    then show ?thesis using snoc by simp
  next
    case False
    then show ?thesis by simp
  qed
qed

lemma upper_cp_space: "c < 128 \<Longrightarrow> is_space c \<Longrightarrow> upper_cp uni c = [c]"
  by (auto simp: is_space_def upper_cp_def)

lemma marker_detected:
  assumes ws: "\<forall>c\<in>set ws. is_space c" and ascii: "\<forall>c\<in>set p. c < 128"
    and p: "py_upper uni p = m" and m: "m \<noteq> []" "\<forall>c\<in>set m. \<not> is_space c"
  shows "startswith (py_upper uni (py_strip (ws @ p @ rest))) m"
proof -
  have ns: "\<not> is_space c" if "c \<in> set p" for c
  proof
    assume s: "is_space c"
    have "set (upper_cp uni c) \<subseteq> set m" using that p by (auto simp: py_upper_def)
    moreover have "upper_cp uni c = [c]" using that ascii s by (simp add: upper_cp_space)
    ultimately show False using s m(2) by simp
  qed
  have pne: "p \<noteq> []" using p m(1) by (auto simp: py_upper_def)
  then have "\<not> is_space (hd p)" "\<not> is_space (last p)" using ns by simp_all
  then have "dropWhile is_space (ws @ p @ rest) = p @ rest"
    using ws pne by (cases p) (simp_all add: dropWhile_append2)
  moreover obtain r where "rev (dropWhile is_space (rev (p @ rest))) = p @ r"
    using strip_right_keeps [of p is_space rest] pne \<open>\<not> is_space (last p)\<close> by blast
  ultimately have "py_strip (ws @ p @ rest) = p @ r" by (simp add: py_strip_def)
  then show ?thesis
    using p by (simp add: py_upper_def startswith_def)
qed

lemma vcard_detected:
  "\<forall>c\<in>set ws. is_space c \<Longrightarrow> \<forall>c\<in>set p. c < 128 \<Longrightarrow>
     py_upper uni p = cps ''BEGIN:VCARD'' \<Longrightarrow> is_vcard uni (ws @ p @ rest)"
  unfolding is_vcard_def by (rule marker_detected) (simp_all add: is_space_def cps_def)

lemma mecard_detected:
  "\<forall>c\<in>set ws. is_space c \<Longrightarrow> \<forall>c\<in>set p. c < 128 \<Longrightarrow>
     py_upper uni p = cps ''MECARD:'' \<Longrightarrow> is_mecard uni (ws @ p @ rest)"
  unfolding is_mecard_def by (rule marker_detected) (simp_all add: is_space_def cps_def)

text \<open>
  A payload whose first character after the white space is an ASCII character other
  than B, b, M and m is not detected.
\<close>

lemma other_not_detected:
  assumes ws: "\<forall>x\<in>set ws. is_space x"
    and c: "\<not> is_space c" "c < 128" "c \<notin> {66, 98, 77, 109}"
  shows "\<not> is_vcard uni (ws @ c # rest) \<and> \<not> is_mecard uni (ws @ c # rest)"
proof -
  have "dropWhile is_space (ws @ c # rest) = c # rest"
    using ws c(1) by (simp add: dropWhile_append2)
  moreover obtain r where "rev (dropWhile is_space (rev ([c] @ rest))) = [c] @ r"
    using strip_right_keeps [of "[c]" is_space rest] c(1) by auto
  ultimately have "py_strip (ws @ c # rest) = c # r" by (simp add: py_strip_def)
  then have "py_upper uni (py_strip (ws @ c # rest)) =
      (if 97 \<le> c \<and> c \<le> 122 then c - 32 else c) # py_upper uni r"
    using c(2) by (simp add: py_upper_def upper_cp_def)
  then show ?thesis
    using c(3) by (auto simp: is_vcard_def is_mecard_def startswith_def cps_def)
qed

text \<open>The assignment under \<^verbatim>\<open>if logo_size_ratio > 0.16\<close> is a minimum.\<close>

lemma pre_clamp_cases:
  "pre_clamp uni data r b =
     (if is_vcard uni data then (py_min r (fl 0.16), max b 4)
      else if is_mecard uni data then (py_min r (fl 0.18), max b 4)
      else (r, b))"
  by (simp add: pre_clamp_def is_vcard_def is_mecard_def Let_def py_min_def f_gt_def)

text \<open>The clamp of lines 209 to 212 stays between its floor and any bound above the input.\<close>

lemma clamp_upper:
  "\<not> f_gt x (Fin h) \<Longrightarrow> a \<le> h \<Longrightarrow> f_le (py_max (Fin a) (py_min x c)) (Fin h)"
  by (cases x; cases c) (auto simp: py_max_def py_min_def f_gt_def)

lemma clamp_range:
  "a \<le> c \<Longrightarrow> f_le (Fin a) (py_max (Fin a) (py_min x (Fin c))) \<and>
     f_le (py_max (Fin a) (py_min x (Fin c))) (Fin c)"
  by (cases x) (auto simp: py_max_def py_min_def f_gt_def)

lemma clamp_spec:
  "a \<le> c \<Longrightarrow> py_max (Fin a) (py_min x (Fin c)) =
     (if x = NaN then Fin a else spec_clamp x (Fin a) (Fin c))"
  by (cases x) (auto simp: py_max_def py_min_def f_gt_def spec_clamp_def)

lemma clamp_spec_kind:
  "a \<le> c \<Longrightarrow> a \<le> k \<Longrightarrow> py_max (Fin a) (py_min (py_min x (Fin k)) (Fin c)) =
     (if x = NaN then Fin a else spec_clamp x (Fin a) (py_min (Fin c) (Fin k)))"
  by (cases x) (auto simp: py_max_def py_min_def f_gt_def spec_clamp_def)

lemma py_min_nan: "(py_min x (Fin k) = NaN) = (x = NaN)"
  by (cases x) (auto simp: py_min_def)

lemma py_min_not_gt: "\<not> f_gt (py_min x (Fin k)) (Fin k)"
  by (cases x) (auto simp: py_min_def f_gt_def)

lemma pre_clamp_not_gt:
  "is_vcard uni data \<Longrightarrow> \<not> f_gt (fst (pre_clamp uni data r b)) (fl 0.16)"
  "is_mecard uni data \<Longrightarrow> \<not> f_gt (fst (pre_clamp uni data r b)) (fl 0.18)"
  using mecard_not_vcard [of uni data]
  unfolding pre_clamp_cases fl_lits by (auto simp: py_min_not_gt)

lemma contact_bound:
  "(is_vcard uni data \<longrightarrow> f_le (applied_ratio uni data r b ec mc) (fl 0.16)) \<and>
   (is_mecard uni data \<longrightarrow> f_le (applied_ratio uni data r b ec mc) (fl 0.18))"
proof (intro conjI impI)
  assume v: "is_vcard uni data"
  show "f_le (applied_ratio uni data r b ec mc) (fl 0.16)"
    using pre_clamp_not_gt(1) [OF v, of r b]
    unfolding applied_ratio_def clamp_ratio_def fl_lits
    by (intro clamp_upper) simp_all
next
  assume m: "is_mecard uni data"
  show "f_le (applied_ratio uni data r b ec mc) (fl 0.18)"
    using pre_clamp_not_gt(2) [OF m, of r b]
    unfolding applied_ratio_def clamp_ratio_def fl_lits
    by (intro clamp_upper) simp_all
qed

text \<open>
  Claim C3. For a payload whose stripped, upper-cased text begins with \<open>BEGIN:VCARD\<close>
  the applied ratio is at most 0.16, whatever ratio was asked for (a NaN or an infinity
  included), whatever the level and the module count; for one that begins with
  \<open>MECARD:\<close> it is at most 0.18. That covers every payload made of white space
  (Unicode's, as \<^verbatim>\<open>strip()\<close> has it), the marker in letters of either case, and any rest.
\<close>

theorem contact_payload_cap:
  "(is_vcard uni data \<longrightarrow> f_le (applied_ratio uni data r b ec mc) (fl 0.16)) \<and>
   (is_mecard uni data \<longrightarrow> f_le (applied_ratio uni data r b ec mc) (fl 0.18)) \<and>
   ((\<forall>c\<in>set ws. is_space c) \<and> (\<forall>c\<in>set p. c < 128) \<and> py_upper uni p = cps ''BEGIN:VCARD'' \<longrightarrow>
      f_le (applied_ratio uni (ws @ p @ rest) r b ec mc) (fl 0.16)) \<and>
   ((\<forall>c\<in>set ws. is_space c) \<and> (\<forall>c\<in>set p. c < 128) \<and> py_upper uni p = cps ''MECARD:'' \<longrightarrow>
      f_le (applied_ratio uni (ws @ p @ rest) r b ec mc) (fl 0.18))"
  using contact_bound [of uni data r b ec mc] contact_bound [of uni "ws @ p @ rest" r b ec mc]
    vcard_detected [of ws p uni rest] mecard_detected [of ws p uni rest]
  by blast

text \<open>Examples, evaluated.\<close>

lemmas payload_defs = is_vcard_def is_mecard_def cps_def py_strip_def py_upper_def upper_cp_def
  no_case_def is_space_def startswith_def

lemma is_vcard_example:
  "is_vcard no_case ([0xA0, 0x20] @ cps ''begin:vCard'' @ [13, 10] @ cps ''VERSION:3.0'')"
  by (simp add: payload_defs)

lemma is_mecard_example: "is_mecard no_case (0x85 # cps ''mecard:N:Rossi,Mario;;'')"
  by (simp add: payload_defs)

lemma not_contact_example:
  "\<not> is_vcard no_case (cps ''https://acme.it'') \<and> \<not> is_mecard no_case (cps ''https://acme.it'')"
  by (simp add: payload_defs)

theorem contact_payload_cap_witness:
  "f_le (applied_ratio no_case
           ([0xA0, 0x20] @ cps ''begin:vCard'' @ [13, 10] @ cps ''VERSION:3.0'') (fl 0.20) 4
           ERROR_CORRECT_H 25) (fl 0.16) \<and>
   f_le (applied_ratio no_case ([0x85] @ cps ''mecard:'' @ cps ''N:Rossi,Mario;;'') PInf 4
           ERROR_CORRECT_H 25) (fl 0.18) \<and>
   is_vcard no_case (cps ''BEGIN:VCARD'') \<and>
   f_le (applied_ratio no_case (cps ''BEGIN:VCARD'') NaN 4 ERROR_CORRECT_L 177) (fl 0.16)"
proof -
  have a: "\<forall>c\<in>set [0xA0, 0x20 :: nat]. is_space c" "\<forall>c\<in>set [0x85 :: nat]. is_space c"
    by (simp_all add: is_space_def)
  have b: "\<forall>c\<in>set (cps ''begin:vCard''). c < 128" "\<forall>c\<in>set (cps ''mecard:''). c < 128"
    by (simp_all add: cps_def)
  have c: "py_upper no_case (cps ''begin:vCard'') = cps ''BEGIN:VCARD''"
    "py_upper no_case (cps ''mecard:'') = cps ''MECARD:''"
    by (simp_all add: payload_defs)
  have v: "is_vcard no_case (cps ''BEGIN:VCARD'')"
    by (simp add: payload_defs)
  have 1: "f_le (applied_ratio no_case
           ([0xA0, 0x20] @ cps ''begin:vCard'' @ [13, 10] @ cps ''VERSION:3.0'') (fl 0.20) 4
           ERROR_CORRECT_H 25) (fl 0.16)"
    using contact_payload_cap [of no_case "[]" "fl 0.20" 4 ERROR_CORRECT_H 25 "[0xA0, 0x20]"
        "cps ''begin:vCard''" "[13, 10] @ cps ''VERSION:3.0''"] a b c by blast
  have 2: "f_le (applied_ratio no_case ([0x85] @ cps ''mecard:'' @ cps ''N:Rossi,Mario;;'') PInf 4
           ERROR_CORRECT_H 25) (fl 0.18)"
    using contact_payload_cap [of no_case "[]" PInf 4 ERROR_CORRECT_H 25 "[0x85]"
        "cps ''mecard:''" "cps ''N:Rossi,Mario;;''"] a b c by blast
  have 3: "f_le (applied_ratio no_case (cps ''BEGIN:VCARD'') NaN 4 ERROR_CORRECT_L 177) (fl 0.16)"
    using contact_payload_cap [of no_case "cps ''BEGIN:VCARD''" NaN 4 ERROR_CORRECT_L 177] v
    by blast
  from 1 2 v 3 show ?thesis by blast
qed

text \<open>
  Claim C2, as the program has it. The pre-clamp for contact payloads leaves the
  requested ratio as it is for a payload that is neither a vCard nor a MECARD, its
  minimum with 0.16 for a vCard and with 0.18 for a MECARD. The ratio applied is the
  clamp of that to \<open>[0.08, cap]\<close>, \<open>cap\<close> being the safe cap of lines 207 to 209; it is
  also the clamp of the requested ratio itself to \<open>[0.08, maxRatio]\<close>, \<open>maxRatio\<close> being
  the payload-aware cap of the specification. A NaN, which no order clamps, is applied
  as 0.08. In every case the applied ratio lies between 0.08 and the safe cap, and the
  safe cap is at most 0.20.
\<close>

theorem applied_ratio_clamp:
  "fst (pre_clamp uni data r b) =
     (if is_vcard uni data then py_min r (fl 0.16)
      else if is_mecard uni data then py_min r (fl 0.18)
      else r) \<and>
   applied_ratio uni data r b ec mc =
     (if r = NaN then fl 0.08
      else spec_clamp (fst (pre_clamp uni data r b)) (fl 0.08) (safe_cap ec mc)) \<and>
   applied_ratio uni data r b ec mc =
     (if r = NaN then fl 0.08
      else spec_clamp r (fl 0.08) (spec_max_ratio uni data ec mc)) \<and>
   f_le (fl 0.08) (applied_ratio uni data r b ec mc) \<and>
   f_le (applied_ratio uni data r b ec mc) (safe_cap ec mc) \<and>
   f_le (applied_ratio uni data r b ec mc) (fl 0.20)"
proof -
  obtain c where c: "safe_cap ec mc = Fin c"
    and lo: "5764607523034235 / 72057594037927936 \<le> c"
    and hi: "c \<le> 3602879701896397 / 18014398509481984"
    using safe_cap_range [of ec mc] f_le_between unfolding fl_lits by blast
  define x where "x = fst (pre_clamp uni data r b)"
  have p: "x = (if is_vcard uni data then py_min r (fl 0.16)
      else if is_mecard uni data then py_min r (fl 0.18) else r)"
    by (simp add: x_def pre_clamp_cases)
  have n: "(x = NaN) = (r = NaN)"
    unfolding p fl_lits by (simp add: py_min_nan)
  have a: "applied_ratio uni data r b ec mc =
      py_max (Fin (5764607523034235 / 72057594037927936)) (py_min x (Fin c))"
    unfolding applied_ratio_def clamp_ratio_def c x_def fl_lits ..
  note s = clamp_spec [OF lo, of x] and g = clamp_range [OF lo, of x]
  have t: "f_le (applied_ratio uni data r b ec mc) (Fin (3602879701896397 / 18014398509481984))"
    using g hi unfolding a
    by (cases "py_max (Fin (5764607523034235 / 72057594037927936)) (py_min x (Fin c))")
      simp_all
  have k: "py_max (Fin (5764607523034235 / 72057594037927936)) (py_min x (Fin c)) =
      (if r = NaN then Fin (5764607523034235 / 72057594037927936)
       else spec_clamp r (Fin (5764607523034235 / 72057594037927936))
              (spec_max_ratio uni data ec mc))"
    unfolding p spec_max_ratio_def c fl_lits
    using clamp_spec [OF lo, of r]
      clamp_spec_kind [OF lo, of "5764607523034235 / 36028797018963968" r]
      clamp_spec_kind [OF lo, of "3242591731706757 / 18014398509481984" r]
    by (cases r) simp_all
  have 1: "fst (pre_clamp uni data r b) =
     (if is_vcard uni data then py_min r (fl 0.16)
      else if is_mecard uni data then py_min r (fl 0.18) else r)"
    using p unfolding x_def .
  have 2: "applied_ratio uni data r b ec mc =
     (if r = NaN then fl 0.08
      else spec_clamp (fst (pre_clamp uni data r b)) (fl 0.08) (safe_cap ec mc))"
    unfolding a c fl_lits x_def [symmetric] using s n by simp
  have 3: "applied_ratio uni data r b ec mc =
     (if r = NaN then fl 0.08 else spec_clamp r (fl 0.08) (spec_max_ratio uni data ec mc))"
    unfolding a fl_lits using k by simp
  have 4: "f_le (fl 0.08) (applied_ratio uni data r b ec mc)"
    "f_le (applied_ratio uni data r b ec mc) (safe_cap ec mc)"
    "f_le (applied_ratio uni data r b ec mc) (fl 0.20)"
    unfolding a c fl_lits using g t unfolding a by simp_all
  from 1 2 3 4 show ?thesis by (intro conjI)
qed

theorem applied_ratio_clamp_witness:
  "applied_ratio no_case (cps ''https://acme.it'') (fl 0.25) 4 ERROR_CORRECT_H 21 =
     spec_clamp (fl 0.25) (fl 0.08) (safe_cap ERROR_CORRECT_H 21) \<and>
   applied_ratio no_case (cps ''https://acme.it'') (fl 0.25) 4 ERROR_CORRECT_H 21 = fl 0.20 \<and>
   fst (pre_clamp no_case (0xA0 # cps ''BEGIN:VCARD'') (fl 0.20) 4) = py_min (fl 0.20) (fl 0.16) \<and>
   applied_ratio no_case (0xA0 # cps ''BEGIN:VCARD'') (fl 0.20) 4 ERROR_CORRECT_H 25 =
     spec_clamp (fl 0.20) (fl 0.08) (spec_max_ratio no_case (0xA0 # cps ''BEGIN:VCARD'')
       ERROR_CORRECT_H 25) \<and>
   applied_ratio no_case (0xA0 # cps ''BEGIN:VCARD'') (fl 0.20) 4 ERROR_CORRECT_H 25 = fl 0.16"
proof -
  have f: "fl 0.25 = Fin (1 / 4)"
    using fl_eqI [of "- 2" "0.25" 4503599627370496] by (simp add: power_int_minus)
  have v: "is_vcard no_case (0xA0 # cps ''BEGIN:VCARD'')"
    by (simp add: payload_defs)
  note t = applied_ratio_clamp [of no_case "cps ''https://acme.it''" "fl 0.25" 4
      ERROR_CORRECT_H 21, unfolded f]
  note u = applied_ratio_clamp [of no_case "0xA0 # cps ''BEGIN:VCARD''" "fl 0.20" 4
      ERROR_CORRECT_H 25, unfolded fl_lits]
  have p: "fst (pre_clamp no_case (cps ''https://acme.it'') (Fin (1 / 4)) 4) = Fin (1 / 4)"
    using t not_contact_example by simp
  have a: "applied_ratio no_case (cps ''https://acme.it'') (Fin (1 / 4)) 4 ERROR_CORRECT_H 21 =
     spec_clamp (Fin (1 / 4)) (fl 0.08) (safe_cap ERROR_CORRECT_H 21)"
    using t unfolding p by simp
  have s: "spec_clamp (Fin (1 / 4)) (fl 0.08) (safe_cap ERROR_CORRECT_H 21) = fl 0.20"
    unfolding fl_lits
    by (simp add: spec_clamp_def safe_cap_table f_gt_def ERROR_CORRECT_L_def
          ERROR_CORRECT_M_def ERROR_CORRECT_H_def)
  have 1: "fst (pre_clamp no_case (0xA0 # cps ''BEGIN:VCARD'')
        (Fin (3602879701896397 / 18014398509481984)) 4) =
      py_min (Fin (3602879701896397 / 18014398509481984))
        (Fin (5764607523034235 / 36028797018963968))"
    using u [THEN conjunct1] v by simp
  have 2: "applied_ratio no_case (0xA0 # cps ''BEGIN:VCARD'')
        (Fin (3602879701896397 / 18014398509481984)) 4 ERROR_CORRECT_H 25 =
      spec_clamp (Fin (3602879701896397 / 18014398509481984))
        (Fin (5764607523034235 / 72057594037927936))
        (spec_max_ratio no_case (0xA0 # cps ''BEGIN:VCARD'') ERROR_CORRECT_H 25)"
    using u [THEN conjunct2, THEN conjunct2, THEN conjunct1] by simp
  have c: "safe_cap ERROR_CORRECT_H 25 = Fin (3602879701896397 / 18014398509481984)"
    by (simp add: safe_cap_table ERROR_CORRECT_L_def ERROR_CORRECT_M_def ERROR_CORRECT_H_def)
  have 3: "applied_ratio no_case (0xA0 # cps ''BEGIN:VCARD'')
        (Fin (3602879701896397 / 18014398509481984)) 4 ERROR_CORRECT_H 25 =
      Fin (5764607523034235 / 36028797018963968)"
    using u [THEN conjunct2, THEN conjunct1] unfolding 1 c
    by (simp add: spec_clamp_def py_min_def f_gt_def)
  show ?thesis
    unfolding f fl_lits using a s 1 2 3 unfolding fl_lits by simp
qed

text \<open>
  Claim C2 as stated, with the safe cap the program computes, fails on a vCard payload:
  with level H and 25 modules the cap is 0.20, a request of 0.20 clamps to 0.20, and
  the program applies 0.16.
\<close>

theorem applied_ratio_vcard_counterexample:
  "applied_ratio no_case (cps ''BEGIN:VCARD'') (fl 0.20) 4 ERROR_CORRECT_H 25 = fl 0.16 \<and>
   spec_clamp (fl 0.20) (fl 0.08) (safe_cap ERROR_CORRECT_H 25) = fl 0.20 \<and>
   applied_ratio no_case (cps ''BEGIN:VCARD'') (fl 0.20) 4 ERROR_CORRECT_H 25 \<noteq>
     spec_clamp (fl 0.20) (fl 0.08) (safe_cap ERROR_CORRECT_H 25)"
proof -
  have v: "is_vcard no_case (cps ''BEGIN:VCARD'')"
    by (simp add: payload_defs)
  have c: "safe_cap ERROR_CORRECT_H 25 = Fin (3602879701896397 / 18014398509481984)"
    by (simp add: safe_cap_table ERROR_CORRECT_L_def ERROR_CORRECT_M_def ERROR_CORRECT_H_def)
  show ?thesis
    unfolding applied_ratio_def clamp_ratio_def pre_clamp_cases c fl_lits
    using v by (simp add: py_max_def py_min_def f_gt_def spec_clamp_def)
qed

text \<open>
  Claim C10. For a payload that is a vCard or a MECARD (its stripped, upper-cased text
  begins with one of the two markers) the border passed to the encoder is
  \<open>max border_size 4\<close>: at least 4, and the caller's value when that is larger. For
  every other payload it is the caller's value. The stripping is that of \<^verbatim>\<open>strip()\<close>:
  a payload made of white space (Unicode's), a marker in letters of either case and any
  rest gets the border of a contact payload; a payload whose first character after the
  white space is an ASCII character other than B, b, M and m keeps the caller's border.
\<close>

theorem contact_payload_border:
  "applied_border uni data r b =
     (if startswith (py_upper uni (py_strip data)) (cps ''BEGIN:VCARD'') \<or>
         startswith (py_upper uni (py_strip data)) (cps ''MECARD:'')
      then max b 4 else b) \<and>
   (if startswith (py_upper uni (py_strip data)) (cps ''BEGIN:VCARD'') \<or>
       startswith (py_upper uni (py_strip data)) (cps ''MECARD:'')
    then 4 \<le> applied_border uni data r b \<and> b \<le> applied_border uni data r b
    else applied_border uni data r b = b) \<and>
   ((\<forall>c\<in>set ws. is_space c) \<and> (\<forall>c\<in>set p. c < 128) \<and>
    (py_upper uni p = cps ''BEGIN:VCARD'' \<or> py_upper uni p = cps ''MECARD:'') \<longrightarrow>
      applied_border uni (ws @ p @ rest) r b = max b 4) \<and>
   ((\<forall>c\<in>set ws. is_space c) \<and> \<not> is_space c \<and> c < 128 \<and> c \<notin> {66, 98, 77, 109} \<longrightarrow>
      applied_border uni (ws @ c # rest) r b = b)"
proof -
  have 1: "applied_border uni d r b =
      (if startswith (py_upper uni (py_strip d)) (cps ''BEGIN:VCARD'') \<or>
          startswith (py_upper uni (py_strip d)) (cps ''MECARD:'')
       then max b 4 else b)" for d
    by (simp add: applied_border_def pre_clamp_def Let_def)
  have 2: "applied_border uni (ws @ p @ rest) r b = max b 4"
    if "\<forall>c\<in>set ws. is_space c" and "\<forall>c\<in>set p. c < 128"
      and "py_upper uni p = cps ''BEGIN:VCARD'' \<or> py_upper uni p = cps ''MECARD:''"
    using that vcard_detected [of ws p uni rest] mecard_detected [of ws p uni rest]
    unfolding 1 is_vcard_def is_mecard_def by auto
  have 3: "applied_border uni (ws @ c # rest) r b = b"
    if "\<forall>c\<in>set ws. is_space c" and "\<not> is_space c" and "c < 128"
      and "c \<notin> {66, 98, 77, 109}"
    using other_not_detected [OF that, of uni rest]
    unfolding 1 is_vcard_def is_mecard_def by simp
  show ?thesis
    using 1 [of data] 2 3 by auto
qed

theorem contact_payload_border_witness:
  "applied_border no_case (0x85 # cps ''MECARD:N:a;;'') (fl 0.18) 1 = 4 \<and>
   applied_border no_case ([0x20, 0xA0] @ cps ''begin:vcard'' @ [0x3000]) (fl 0.18) 6 = 6 \<and>
   applied_border no_case (cps ''https://acme.it'') (fl 0.18) 1 = 1 \<and>
   applied_border no_case (0xA0 # cps ''xBEGIN:VCARD'') (fl 0.18) 1 = 1"
proof -
  have a: "\<forall>c\<in>set [0x85 :: nat]. is_space c" "\<forall>c\<in>set [0x20, 0xA0 :: nat]. is_space c"
    "\<forall>c\<in>set [0xA0 :: nat]. is_space c" "\<not> is_space 120"
    by (simp_all add: is_space_def)
  have b: "\<forall>c\<in>set (cps ''MECARD:''). c < 128" "\<forall>c\<in>set (cps ''begin:vcard''). c < 128"
    by (simp_all add: cps_def)
  have c: "py_upper no_case (cps ''MECARD:'') = cps ''MECARD:''"
    "py_upper no_case (cps ''begin:vcard'') = cps ''BEGIN:VCARD''"
    by (simp_all add: payload_defs)
  have 1: "applied_border no_case ([0x85] @ cps ''MECARD:'' @ cps ''N:a;;'') (fl 0.18) 1 =
      max 1 4"
    using contact_payload_border [of no_case "[]" "fl 0.18" 1 "[0x85]" "cps ''MECARD:''"
        "cps ''N:a;;''"] a b c by blast
  have 2: "applied_border no_case ([0x20, 0xA0] @ cps ''begin:vcard'' @ [0x3000]) (fl 0.18) 6 =
      max 6 4"
    using contact_payload_border [of no_case "[]" "fl 0.18" 6 "[0x20, 0xA0]"
        "cps ''begin:vcard''" "[0x3000]"] a b c by blast
  have 3: "applied_border no_case (cps ''https://acme.it'') (fl 0.18) 1 = 1"
    using contact_payload_border [of no_case "cps ''https://acme.it''" "fl 0.18" 1]
      not_contact_example by (simp add: is_vcard_def is_mecard_def)
  have 4: "applied_border no_case ([0xA0] @ 120 # cps ''BEGIN:VCARD'') (fl 0.18) 1 = 1"
    using contact_payload_border [of no_case "[]" "fl 0.18" 1 "[0xA0]" "[]" "cps ''BEGIN:VCARD''"
        120] a by simp
  show ?thesis
    using 1 2 3 4 by (simp add: cps_def)
qed

section \<open>The validation loop\<close>

lemma sub_1e17_002:
  "fsub (Fin (100000000000000000)) (Fin (5764607523034235 / 288230376151711744)) = Fin (100000000000000000)"
  using fl_eqI [of 56 "100000000000000000 - 5764607523034235 / 288230376151711744" 6250000000000000]
  by simp

lemma fl_1e17: "fl (100000000000000000) = Fin (100000000000000000)"
  using fl_eqI [of 56 "100000000000000000" 6250000000000000]
  by simp

lemma round2_1e17: "py_round2 (Fin (100000000000000000)) = Fin (100000000000000000)"
proof -
  have r: "rhe (100 * 100000000000000000) = 10000000000000000000"
    by (rule rhe_unique) simp
  have "fl (of_int (10000000000000000000) / 100) = Fin (100000000000000000)"
    using fl_1e17 by simp
  then show ?thesis
    unfolding py_round2.simps r .
qed

text \<open>One retry, and giving up at the floor.\<close>

lemma main_loop_retry:
  assumes "validate env" and "auto_tune env" and "compose env r = Inr img"
    and "\<not> can_decode (pyzbar_ok env) (zbar_decode env (length tried)) img"
    and "\<not> f_le r (fl 0.12)"
  shows "main_loop (Suc n) env r tried =
    main_loop n env (py_max (fl 0.12) (py_round2 (fsub r (fl 0.02)))) (tried @ [r])"
  using assms by (simp add: Let_def)

lemma main_loop_floor:
  assumes "validate env" and "compose env r = Inr img"
    and "\<not> can_decode (pyzbar_ok env) (zbar_decode env (length tried)) img"
    and "f_le r (fl 0.12)"
  shows "main_loop (Suc n) env r tried = Some (Inr (False, r, tried @ [r]))"
  using assms by (simp add: Let_def)

lemma retry_steps:
  "py_max (fl 0.12) (py_round2 (fsub (fl 0.18) (fl 0.02))) = fl 0.16"
  "py_max (fl 0.12) (py_round2 (fsub (fl 0.16) (fl 0.02))) = fl 0.14"
  "py_max (fl 0.12) (py_round2 (fsub (fl 0.14) (fl 0.02))) = fl 0.12"
  unfolding fl_lits fl_subs round2_016 round2_014 round2_012
  by (simp_all add: py_max_def f_gt_def)

lemma above_floor:
  "\<not> f_le (fl 0.18) (fl 0.12)" "\<not> f_le (fl 0.16) (fl 0.12)" "\<not> f_le (fl 0.14) (fl 0.12)"
  "f_le (fl 0.12) (fl 0.12)"
  unfolding fl_lits by simp_all

text \<open>
  Claim C4. With validation and auto-tune on, a starting ratio of 0.18 and a decode
  that fails at every attempt, the loop composes with 0.18, 0.16, 0.14 and 0.12 and then
  gives up: four rounds of fuel are enough, and three are not.
\<close>

theorem retry_sequence:
  assumes "validate env" and "auto_tune env"
    and "\<forall>r. \<exists>img. compose env r = Inr img"
    and "\<forall>i img. \<not> can_decode (pyzbar_ok env) (zbar_decode env i) img"
  shows "main_loop (Suc (Suc (Suc (Suc k)))) env (fl 0.18) [] =
           Some (Inr (False, fl 0.12, [fl 0.18, fl 0.16, fl 0.14, fl 0.12])) \<and>
         main_loop (Suc (Suc (Suc 0))) env (fl 0.18) [] = None"
proof -
  have c: "\<exists>img. compose env r = Inr img" for r using assms(3) by blast
  have d: "\<not> can_decode (pyzbar_ok env) (zbar_decode env i) img" for i img
    using assms(4) by blast
  have s1: "main_loop (Suc n) env (fl 0.18) [] = main_loop n env (fl 0.16) [fl 0.18]" for n
    using c [of "fl 0.18"] main_loop_retry [OF assms(1,2) _ d above_floor(1), where tried = "[]" and n = n]
    by (auto simp only: retry_steps append_Nil)
  have s2: "main_loop (Suc n) env (fl 0.16) [fl 0.18] =
      main_loop n env (fl 0.14) [fl 0.18, fl 0.16]" for n
    using c [of "fl 0.16"] main_loop_retry [OF assms(1,2) _ d above_floor(2), where tried = "[fl 0.18]" and n = n]
    by (auto simp only: retry_steps append.simps)
  have s3: "main_loop (Suc n) env (fl 0.14) [fl 0.18, fl 0.16] =
      main_loop n env (fl 0.12) [fl 0.18, fl 0.16, fl 0.14]" for n
    using c [of "fl 0.14"]
      main_loop_retry [OF assms(1,2) _ d above_floor(3), where tried = "[fl 0.18, fl 0.16]" and n = n]
    by (auto simp only: retry_steps append.simps)
  have s4: "main_loop (Suc n) env (fl 0.12) [fl 0.18, fl 0.16, fl 0.14] =
      Some (Inr (False, fl 0.12, [fl 0.18, fl 0.16, fl 0.14, fl 0.12]))" for n
    using c [of "fl 0.12"]
      main_loop_floor [OF assms(1) _ d above_floor(4), where tried = "[fl 0.18, fl 0.16, fl 0.14]" and n = n]
    by (auto simp only: append.simps)
  have z: "main_loop 0 env (fl 0.12) [fl 0.18, fl 0.16, fl 0.14] = None"
    by (simp only: main_loop.simps)
  show ?thesis
    by (simp only: s1 s2 s3 s4 z simp_thms)
qed

theorem retry_sequence_witness:
  "validate undecodable \<and> auto_tune undecodable \<and>
   main_loop 4 undecodable (fl 0.18) [] =
     Some (Inr (False, fl 0.12, [fl 0.18, fl 0.16, fl 0.14, fl 0.12])) \<and>
   main_loop 3 undecodable (fl 0.18) [] = None"
proof -
  have 1: "validate undecodable" "auto_tune undecodable"
    by (simp_all add: undecodable_def)
  have 2: "\<forall>r. \<exists>img. compose undecodable r = Inr img"
    by (simp add: undecodable_def)
  have 3: "\<forall>i img. \<not> can_decode (pyzbar_ok undecodable) (zbar_decode undecodable i) img"
    by (simp add: undecodable_def can_decode_def)
  have n: "(4::nat) = Suc (Suc (Suc (Suc 0)))" "(3::nat) = Suc (Suc (Suc 0))"
    by simp_all
  show ?thesis
    using retry_sequence [OF 1 2 3, of 0] 1 unfolding n by blast
qed

text \<open>A ratio that the retry step maps to itself, above the floor, keeps the loop running.\<close>

lemma stuck_steps:
  "py_max (fl 0.12) (py_round2 (fsub (Fin 100000000000000000) (fl 0.02))) =
     Fin 100000000000000000"
  "py_max (fl 0.12) (py_round2 (fsub PInf (fl 0.02))) = PInf"
  "\<not> f_le (Fin 100000000000000000) (fl 0.12)" "\<not> f_le PInf (fl 0.12)"
  unfolding fl_lits sub_1e17_002 round2_1e17
  by (simp_all add: py_max_def f_gt_def)

lemma undecodable_stuck:
  assumes "py_max (fl 0.12) (py_round2 (fsub r (fl 0.02))) = r" and "\<not> f_le r (fl 0.12)"
  shows "main_loop fuel undecodable r tried = None"
proof (induction fuel arbitrary: tried)
  case 0
  show ?case by simp
next
  case (Suc fuel)
  have "main_loop (Suc fuel) undecodable r tried =
      main_loop fuel undecodable (py_max (fl 0.12) (py_round2 (fsub r (fl 0.02)))) (tried @ [r])"
    by (rule main_loop_retry [where img = "()", OF _ _ _ _ assms(2)])
      (simp_all add: undecodable_def can_decode_def)
  then show ?case by (simp only: assms(1) Suc.IH)
qed

text \<open>
  Claim C5 fails on the program. The command line takes any float for \<^verbatim>\<open>--ratio\<close>. At
  \<^verbatim>\<open>1e17\<close> the subtraction of 0.02 is absorbed by the rounding (the floats near
  \<^verbatim>\<open>1e17\<close> are 16 apart), \<^verbatim>\<open>round(.., 2)\<close> and \<^verbatim>\<open>max(0.12, ..)\<close> return the same value, and
  the ratio never moves; an infinity behaves alike. When no image decodes, the loop is
  still running after any number of rounds.
\<close>

theorem retry_loop_stuck:
  "fl 100000000000000000 = Fin 100000000000000000 \<and>
   main_loop fuel undecodable (fl 100000000000000000) [] = None \<and>
   main_loop fuel undecodable PInf [] = None"
  unfolding fl_1e17
  using undecodable_stuck [OF stuck_steps(1) stuck_steps(3)]
    undecodable_stuck [OF stuck_steps(2) stuck_steps(4)]
  by simp

text \<open>
  In the nominal range the retry step does lower the ratio, by at least 0.01 while it
  is above the floor, and the loop returns: for every finite starting ratio up to
  \<open>2 ^ 30\<close>, whatever \<open>compose\<close> and the scanner do.
\<close>

lemma retry_step_decreases:
  assumes "1080863910568919 / 9007199254740992 < r" and "r \<le> 2 ^ 30"
  obtains r' where "py_max (fl 0.12) (py_round2 (fsub (Fin r) (fl 0.02))) = Fin r'"
    and "r' \<le> max (1080863910568919 / 9007199254740992) (r - 1 / 100)"
proof -
  define x where "x = r - 5764607523034235 / 288230376151711744"
  have xl: "1 / 2 ^ 64 \<le> x" and xh: "x < 2 ^ 64"
    using assms by (simp_all add: x_def)
  obtain v where v: "fl x = Fin v" "x - x / 9007199254740992 \<le> v"
    "v \<le> x + x / 9007199254740992"
    using fl_close [OF xl xh] by blast
  have xr: "99 / 1000 < x" "x \<le> 1073741824" using assms by (simp_all add: x_def)
  have vb: "98 / 1000 < v" "v \<le> x + 1 / 8388608" using v(2,3) xr by linarith+
  define k where "k = rhe (100 * v)"
  define y where "y = rat_of_int k / 100"
  have "\<bar>of_int k - 100 * v\<bar> \<le> 1 / 2" unfolding k_def by (rule rhe_bounds)
  then have yb: "v - 1 / 200 \<le> y" "y \<le> v + 1 / 200" unfolding y_def by linarith+
  have yl: "1 / 2 ^ 64 \<le> y" and yh: "y < 2 ^ 64" using yb vb xr by simp_all
  obtain w where w: "fl y = Fin w" "y - y / 9007199254740992 \<le> w"
    "w \<le> y + y / 9007199254740992"
    using fl_close [OF yl yh] by blast
  have "w \<le> r - 1 / 100" using w(3) yb vb xr by (simp add: x_def)
  moreover have "py_max (fl 0.12) (py_round2 (fsub (Fin r) (fl 0.02))) =
      Fin (max (1080863910568919 / 9007199254740992) w)"
    unfolding fl_lits
    by (simp add: x_def [symmetric] v(1) k_def [symmetric] y_def [symmetric] w(1)
        py_max_def f_gt_def max_def)
  ultimately show ?thesis using that by (simp add: max_def) 
qed


lemma main_loop_returns_within:
  "r \<le> 2 ^ 30 \<Longrightarrow> r \<le> 1080863910568919 / 9007199254740992 + of_nat n / 100 \<Longrightarrow>
     \<exists>res. main_loop (Suc n) env (Fin r) tried = Some res"
proof (induction n arbitrary: r tried)
  case 0
  then have "f_le (Fin r) (fl 0.12)" unfolding fl_lits by simp
  then show ?case
    by (cases "compose env (Fin r)") (simp_all add: Let_def)
next
  case (Suc n)
  show ?case
  proof (cases "r \<le> 1080863910568919 / 9007199254740992")
    case True
    then have "f_le (Fin r) (fl 0.12)" unfolding fl_lits by simp
    then show ?thesis
      by (cases "compose env (Fin r)") (simp_all add: Let_def)
  next
    case False
    then have above: "1080863910568919 / 9007199254740992 < r" by simp
    obtain r' where r': "py_max (fl 0.12) (py_round2 (fsub (Fin r) (fl 0.02))) = Fin r'"
      "r' \<le> max (1080863910568919 / 9007199254740992) (r - 1 / 100)"
      using retry_step_decreases [OF above Suc.prems(1)] by blast
    have "r' \<le> 2 ^ 30" using r'(2) Suc.prems(1) above by (simp add: max_def split: if_splits)
    moreover have "r - 1 / 100 \<le> 1080863910568919 / 9007199254740992 + of_nat n / 100"
      using Suc.prems(2) by (simp add: field_simps)
    then have "r' \<le> 1080863910568919 / 9007199254740992 + of_nat n / 100"
      using r'(2) by (cases "1080863910568919 / 9007199254740992 \<le> r - 1 / 100")
        (simp_all add: max_def)
    ultimately have "\<exists>res. main_loop (Suc n) env (Fin r') (tried @ [Fin r]) = Some res"
      by (rule Suc.IH)
    then have ih: "\<exists>res. main_loop (Suc n) env
        (py_max (fl 0.12) (py_round2 (fsub (Fin r) (fl 0.02)))) (tried @ [Fin r]) = Some res"
      unfolding r'(1) .
    show ?thesis
    proof (cases "compose env (Fin r)")
      case (Inl e)
      then show ?thesis by (simp del: main_loop.simps add: main_loop.simps(2) [of "Suc n"])
    next
      case (Inr img)
      show ?thesis
        using ih
        by (subst main_loop.simps(2)) (simp add: Inr Let_def del: main_loop.simps)
    qed
  qed
qed

section \<open>The size of the logo\<close>

lemma to_float_exact: "\<bar>n\<bar> \<le> 2 ^ 31 \<Longrightarrow> to_float n = Inr (Fin (of_int n))"
proof -
  assume "\<bar>n\<bar> \<le> 2 ^ 31"
  then have "\<bar>n\<bar> < 2 ^ 53" by simp
  then show ?thesis by (simp add: to_float_def fl_int_exact)
qed









text \<open>The default call on a 25-module code: a QR image of 396 pixels, a ratio of 0.18.\<close>

lemma mul_396_018:
  "fmul (Fin 396) (Fin (3242591731706757 / 18014398509481984)) =
   Fin (2507942042491945 / 35184372088832)"
  using fl_eqI [of 6 "396 * (3242591731706757 / 18014398509481984)" 5015884084983890]
  by (simp add: power_int_minus)

lemma div_71_256: "fl (71 / 256) = Fin (71 / 256)"
  using fl_eqI [of "- 2" "71 / 256" 4996180836614144]
  by (simp add: power_int_minus)

lemma max_side_example: "max_side_px 396 396 (fl 0.18) = Inr 71"
proof -
  have "\<lfloor>2507942042491945 / 35184372088832 :: rat\<rfloor> = 71"
    by (rule floor_unique) simp_all
  then show ?thesis
    unfolding max_side_px_def fl_lits
    by (simp add: to_float_exact bind_err_def mul_396_018 del: fmul.simps)
qed



text \<open>
  A logo of 1024 by 4 pixels on the same image: the target size is 71 by 0, which the
  imaging library refuses, so the call raises at line 234 and no logo is pasted.
\<close>

lemma logo_size_elongated:
  "logo_target_size 396 396 (fl 0.18) 1024 4 = Inr (71, 0) \<and>
   logo_new_size 396 396 (fl 0.18) 1024 4 = Inl ValueError"
proof -
  have a: "int_truediv 1024 4 = Inr (Fin 256)"
    using fl_int_exact [of 256] by (simp add: int_truediv_def)
  have r: "rhe (71 / 256) = 0"
    by (rule rhe_unique) simp
  have t: "logo_target_size 396 396 (fl 0.18) 1024 4 = Inr (71, 0)"
    unfolding logo_target_size_def max_side_example fl_one
    by (simp add: bind_err_def a to_float_exact f_ge_def div_71_256 r)
  show ?thesis
    unfolding logo_new_size_def t by (simp add: t bind_err_def pil_resize_def)
qed



section \<open>Colours\<close>

lemma normalize_color_raises:
  "(\<exists>e. normalize_color getrgb c = Inl e) = (\<exists>e. getrgb c = Inl e)"
  by (cases "getrgb c") (simp_all add: normalize_color_def)

lemma normalize_color_returns:
  "getrgb c = Inr rgb \<Longrightarrow> normalize_color getrgb c = Inr (take 3 rgb)"
  by (simp add: normalize_color_def)

text \<open>
  Claim C9 fails on the program for tuples. \<^verbatim>\<open>_normalize_color\<close> hands every colour to
  \<^verbatim>\<open>ImageColor.getrgb\<close>, which takes strings only; a tuple such as \<open>(0, 0, 0)\<close>, the
  default of \<^verbatim>\<open>logo_bg_outline\<close>, makes it raise, and the handler turns that into the
  \<^verbatim>\<open>ValueError\<close> of an invalid colour.
\<close>

theorem normalize_color_tuple_raises:
  "normalize_color (pil_getrgb parse) (ColorTuple [0, 0, 0]) = Inl ValueError"
  by (simp add: normalize_color_def pil_getrgb_def)

end
